theory Spec2Isabelle
  imports Complex_Main
begin

section \<open>Python values shared by the embedded functions of plots.py\<close>

text \<open>
  A sub-observable key of the datasets is \<open>None\<close>, a species name such as
  \<open>'pion'\<close>, or a cumulant pair such as \<open>(2, 2)\<close>.
\<close>

datatype subobs = NoSub | Species string | Cumulant int int

text \<open>
  The exceptions the embedded code can raise. \<open>UnknownObservable obs subobs\<close> stands for
  \<open>ValueError('unknown observable: {} {}'.format(obs, subobs))\<close>, carried by its two
  format arguments; \<open>BroadcastError\<close> for numpy's \<open>ValueError\<close> on operands whose
  shapes do not agree, \<open>PlotShapeError\<close> for matplotlib's on data of different
  lengths; \<open>InvalidInput\<close> for the error the specification gives an empty
  sample set or a confidence level outside \<open>(0, 1)\<close>.
\<close>

datatype py_error =
    KeyError
  | IndexError
  | TypeError
  | UnknownObservable string subobs
  | BroadcastError
  | PlotShapeError
  | InterpolationError
  | InvalidInput

section \<open>numpy floats and arrays\<close>

text \<open>
  A float64 is modelled by its IEEE 754 value class: a finite value, carried as a real
  number, the two infinities, or NaN. The sign of zero is not modelled; a zero divisor
  counts as \<open>+0.0\<close>. numpy's arithmetic on float arrays raises nothing: a division by
  zero or an invalid operation gives \<open>inf\<close> or \<open>nan\<close> (under a RuntimeWarning), which the
  operations below write out. The operations give the exact result on finite values;
  where a rounded result decides what the code does (the median, and the uncertainties
  and thresholds of \<open>format_ci\<close>), the rounding to float64 is applied with \<open>f64\<close>.
\<close>

datatype npfloat = Fin real | PInf | NInf | NaN

fun np_neg :: "npfloat \<Rightarrow> npfloat" where
  "np_neg (Fin a) = Fin (- a)"
| "np_neg PInf = NInf"
| "np_neg NInf = PInf"
| "np_neg NaN = NaN"

fun np_add :: "npfloat \<Rightarrow> npfloat \<Rightarrow> npfloat" where
  "np_add (Fin a) (Fin b) = Fin (a + b)"
| "np_add (Fin a) PInf = PInf"
| "np_add (Fin a) NInf = NInf"
| "np_add PInf (Fin b) = PInf"
| "np_add PInf PInf = PInf"
| "np_add PInf NInf = NaN"
| "np_add NInf (Fin b) = NInf"
| "np_add NInf NInf = NInf"
| "np_add NInf PInf = NaN"
| "np_add NaN _ = NaN"
| "np_add _ NaN = NaN"

definition np_sub :: "npfloat \<Rightarrow> npfloat \<Rightarrow> npfloat" where
  "np_sub a b = np_add a (np_neg b)"

text \<open>An infinity with the sign of a finite factor; \<open>inf * 0\<close> is invalid.\<close>

definition signed_inf :: "real \<Rightarrow> npfloat" where
  "signed_inf a = (if a = 0 then NaN else if 0 < a then PInf else NInf)"

fun np_mul :: "npfloat \<Rightarrow> npfloat \<Rightarrow> npfloat" where
  "np_mul (Fin a) (Fin b) = Fin (a * b)"
| "np_mul (Fin a) PInf = signed_inf a"
| "np_mul (Fin a) NInf = signed_inf (- a)"
| "np_mul PInf (Fin b) = signed_inf b"
| "np_mul NInf (Fin b) = signed_inf (- b)"
| "np_mul PInf PInf = PInf"
| "np_mul PInf NInf = NInf"
| "np_mul NInf PInf = NInf"
| "np_mul NInf NInf = PInf"
| "np_mul NaN _ = NaN"
| "np_mul _ NaN = NaN"

fun np_div :: "npfloat \<Rightarrow> npfloat \<Rightarrow> npfloat" where
  "np_div (Fin a) (Fin b) = (if b = 0 then signed_inf a else Fin (a / b))"
| "np_div (Fin a) PInf = Fin 0"
| "np_div (Fin a) NInf = Fin 0"
| "np_div PInf (Fin b) = (if 0 \<le> b then PInf else NInf)"
| "np_div NInf (Fin b) = (if 0 \<le> b then NInf else PInf)"
| "np_div PInf PInf = NaN"
| "np_div PInf NInf = NaN"
| "np_div NInf PInf = NaN"
| "np_div NInf NInf = NaN"
| "np_div NaN _ = NaN"
| "np_div _ NaN = NaN"

fun np_sqrt :: "npfloat \<Rightarrow> npfloat" where
  "np_sqrt (Fin a) = (if a < 0 then NaN else Fin (sqrt a))"
| "np_sqrt PInf = PInf"
| "np_sqrt NInf = NaN"
| "np_sqrt NaN = NaN"

definition np_square :: "npfloat \<Rightarrow> npfloat" where
  "np_square a = np_mul a a"

fun np_abs :: "npfloat \<Rightarrow> npfloat" where
  "np_abs (Fin a) = Fin \<bar>a\<bar>"
| "np_abs PInf = PInf"
| "np_abs NInf = PInf"
| "np_abs NaN = NaN"

text \<open>Comparisons: every comparison with NaN is false.\<close>

fun np_lt :: "npfloat \<Rightarrow> npfloat \<Rightarrow> bool" where
  "np_lt (Fin a) (Fin b) = (a < b)"
| "np_lt (Fin a) PInf = True"
| "np_lt NInf (Fin b) = True"
| "np_lt NInf PInf = True"
| "np_lt _ _ = False"

definition np_gt :: "npfloat \<Rightarrow> npfloat \<Rightarrow> bool" where
  "np_gt a b = np_lt b a"

fun np_le :: "npfloat \<Rightarrow> npfloat \<Rightarrow> bool" where
  "np_le NaN _ = False"
| "np_le _ NaN = False"
| "np_le a b = (a = b \<or> np_lt a b)"

fun is_finite :: "npfloat \<Rightarrow> bool" where
  "is_finite (Fin a) = True"
| "is_finite _ = False"

text \<open>
  Rounding of a real number to float64, to the nearest value with ties to the even
  significand: a value in the binade from \<open>2^E\<close> is rounded to a multiple of
  \<open>2^(E - 52)\<close>, a subnormal one to a multiple of \<open>2^-1074\<close>, and a result of
  magnitude \<open>2^1024\<close> or more overflows to an infinity. \<open>f64\<close> rounds the finite
  result of an operation; a decimal literal \<open>c\<close> of the source is \<open>float64 c\<close>.
\<close>

definition round_half_even :: "real \<Rightarrow> int" where
  "round_half_even r =
     (let f = \<lfloor>r\<rfloor>; d = r - of_int f
      in if d < 1 / 2 then f else if 1 / 2 < d then f + 1 else if even f then f else f + 1)"

definition float64 :: "real \<Rightarrow> npfloat" where
  "float64 x =
     (if x = 0 then Fin 0
      else let e = max (\<lfloor>log 2 \<bar>x\<bar>\<rfloor> - 52) (- 1074);
               r = of_int (round_half_even (x / 2 powr of_int e)) * 2 powr of_int e
           in if 2 powr 1024 \<le> \<bar>r\<bar> then (if 0 < x then PInf else NInf) else Fin r)"

fun f64 :: "npfloat \<Rightarrow> npfloat" where
  "f64 (Fin a) = float64 a"
| "f64 v = v"

text \<open>
  A one-dimensional array is the list of its entries. A two-dimensional array carries
  its number of columns beside its rows, so that an array of shape \<open>(0, m)\<close> keeps its
  \<open>m\<close>; a three-dimensional array of shape \<open>(n, a, b)\<close> carries \<open>a\<close> and \<open>b\<close> beside its
  \<open>n\<close> matrices.
\<close>

datatype array2 = Array2 (ncols: nat) (rows: "npfloat list list")

datatype array3 = Array3 (dim1: nat) (dim2: nat) (mats: "npfloat list list list")

definition nrows :: "array2 \<Rightarrow> nat" where
  "nrows A = length (rows A)"

definition wf2 :: "array2 \<Rightarrow> bool" where
  "wf2 A = list_all (\<lambda>r. length r = ncols A) (rows A)"

definition wf3 :: "array3 \<Rightarrow> bool" where
  "wf3 C = list_all (\<lambda>M. length M = dim1 C \<and> list_all (\<lambda>r. length r = dim2 C) M) (mats C)"

text \<open>
  Broadcasting of two axis lengths: equal lengths, or one of them 1, which is then
  stretched to the other; anything else is numpy's \<open>ValueError\<close>.
\<close>

definition bshape :: "nat \<Rightarrow> nat \<Rightarrow> py_error + nat" where
  "bshape a b =
     (if a = b then Inr a else if a = 1 then Inr b else if b = 1 then Inr a
      else Inl BroadcastError)"

definition stretch :: "nat \<Rightarrow> 'a list \<Rightarrow> 'a list" where
  "stretch k xs = (if length xs = k then xs else replicate k (hd xs))"

text \<open>Sequencing of computations that may raise.\<close>

definition and_then :: "'e + 'a \<Rightarrow> ('a \<Rightarrow> 'e + 'b) \<Rightarrow> 'e + 'b" where
  "and_then m f = (case m of Inl e \<Rightarrow> Inl e | Inr v \<Rightarrow> f v)"

definition ufunc1 :: "(npfloat \<Rightarrow> npfloat \<Rightarrow> npfloat) \<Rightarrow> npfloat list \<Rightarrow> npfloat list
    \<Rightarrow> py_error + npfloat list" where
  "ufunc1 f xs ys =
     and_then (bshape (length xs) (length ys))
       (\<lambda>n. Inr (map2 f (stretch n xs) (stretch n ys)))"

definition ufunc2 :: "(npfloat \<Rightarrow> npfloat \<Rightarrow> npfloat) \<Rightarrow> array2 \<Rightarrow> array2
    \<Rightarrow> py_error + array2" where
  "ufunc2 f A B =
     and_then (bshape (nrows A) (nrows B)) (\<lambda>n.
     and_then (bshape (ncols A) (ncols B)) (\<lambda>m.
       Inr (Array2 m
         (map2 (\<lambda>r s. map2 f (stretch m r) (stretch m s))
            (stretch n (rows A)) (stretch n (rows B))))))"

text \<open>An operation of an array with a Python scalar, entry by entry.\<close>

definition map2d :: "(npfloat \<Rightarrow> npfloat) \<Rightarrow> array2 \<Rightarrow> array2" where
  "map2d f A = Array2 (ncols A) (map (map f) (rows A))"

text \<open>A value of numpy arithmetic that may still be a scalar: Python's \<open>sum\<close> starts at 0.\<close>

datatype ndvalue = Scalar npfloat | Array1 "npfloat list"

fun nd_add :: "ndvalue \<Rightarrow> ndvalue \<Rightarrow> py_error + ndvalue" where
  "nd_add (Scalar a) (Scalar b) = Inr (Scalar (np_add a b))"
| "nd_add (Scalar a) (Array1 ys) = Inr (Array1 (map (np_add a) ys))"
| "nd_add (Array1 xs) (Scalar b) = Inr (Array1 (map (\<lambda>x. np_add x b) xs))"
| "nd_add (Array1 xs) (Array1 ys) = and_then (ufunc1 np_add xs ys) (\<lambda>zs. Inr (Array1 zs))"

fun nd_map :: "(npfloat \<Rightarrow> npfloat) \<Rightarrow> ndvalue \<Rightarrow> ndvalue" where
  "nd_map f (Scalar a) = Scalar (f a)"
| "nd_map f (Array1 xs) = Array1 (map f xs)"

text \<open>\<open>sum(iterable)\<close>: the accumulator starts at the integer 0 and is added to from the left.\<close>

fun py_sum_from :: "ndvalue \<Rightarrow> ndvalue list \<Rightarrow> py_error + ndvalue" where
  "py_sum_from acc [] = Inr acc"
| "py_sum_from acc (v # vs) = and_then (nd_add acc v) (\<lambda>acc'. py_sum_from acc' vs)"

definition py_sum :: "ndvalue list \<Rightarrow> py_error + ndvalue" where
  "py_sum vs = py_sum_from (Scalar (Fin 0)) vs"

section \<open>Total experimental error (\<open>_observables\<close>, lines 322-324)\<close>

text \<open>
  \<open>yerr = np.sqrt(sum(e**2 for e in dset['yerr'].values()))\<close>: the dictionary of error
  sources is the list of its items in insertion order.
\<close>

definition total_yerr :: "(string \<times> npfloat list) list \<Rightarrow> py_error + ndvalue" where
  "total_yerr yerr =
     and_then (py_sum (map (\<lambda>e. Array1 (map np_square e)) (map snd yerr)))
       (\<lambda>s. Inr (nd_map np_sqrt s))"

text \<open>
  The quadrature sum of the errors of one bin: the square root of the sum of their
  squares, added from the left as \<open>sum\<close> does.
\<close>

definition quadrature :: "npfloat list \<Rightarrow> npfloat" where
  "quadrature es = np_sqrt (foldl np_add (Fin 0) (map np_square es))"

section \<open>Observable colours\<close>

definition species_colors :: "(subobs \<times> (int \<times> int \<times> int)) list" where
  "species_colors =
     [(Species ''pion'', (210, 85, 70)),
      (Species ''kaon'', (130, 88, 68)),
      (Species ''proton'', (30, 90, 62))]"

definition cumulant_colors :: "(subobs \<times> (int \<times> int \<times> int)) list" where
  "cumulant_colors =
     [(Cumulant 2 2, (230, 90, 65)),
      (Cumulant 2 4, (262, 80, 63)),
      (Cumulant 3 2, (150, 90, 67)),
      (Cumulant 4 2, (310, 70, 50))]"

text \<open>A dictionary subscript \<open>d[k]\<close>: \<open>KeyError\<close> on a missing key.\<close>

definition getitem :: "('k \<times> 'v) list \<Rightarrow> 'k \<Rightarrow> py_error + 'v" where
  "getitem d k = (case map_of d k of None \<Rightarrow> Inl KeyError | Some v \<Rightarrow> Inr v)"

definition obs_color_hsluv :: "string \<Rightarrow> subobs \<Rightarrow> py_error + (int \<times> int \<times> int)" where
  "obs_color_hsluv obs sub =
     (if obs \<in> {''dNch_deta'', ''pT_fluct''} then Inr (250, 90, 55)
      else if obs = ''dET_deta'' then Inr (10, 65, 55)
      else if obs \<in> {''dN_dy'', ''mean_pT''} then getitem species_colors sub
      else if obs = ''vnk'' then getitem cumulant_colors sub
      else Inl (UnknownObservable obs sub))"

definition known_observables :: "string set" where
  "known_observables =
     {''dNch_deta'', ''pT_fluct'', ''dET_deta'', ''dN_dy'', ''mean_pT'', ''vnk''}"

text \<open>The sub-observables each known observable has a colour for.\<close>

definition valid_subobs :: "string \<Rightarrow> subobs \<Rightarrow> bool" where
  "valid_subobs obs sub =
     (if obs \<in> {''dN_dy'', ''mean_pT''} then sub \<in> fst ` set species_colors
      else if obs = ''vnk'' then sub \<in> fst ` set cumulant_colors
      else True)"

text \<open>The colour table the function implements, written out entry by entry.\<close>

definition color_table :: "string \<Rightarrow> subobs \<Rightarrow> int \<times> int \<times> int" where
  "color_table obs sub =
     (if obs = ''dNch_deta'' \<or> obs = ''pT_fluct'' then (250, 90, 55)
      else if obs = ''dET_deta'' then (10, 65, 55)
      else if obs = ''dN_dy'' \<or> obs = ''mean_pT'' then
        (if sub = Species ''pion'' then (210, 85, 70)
         else if sub = Species ''kaon'' then (130, 88, 68)
         else (30, 90, 62))
      else
        (if sub = Cumulant 2 2 then (230, 90, 65)
         else if sub = Cumulant 2 4 then (262, 80, 63)
         else if sub = Cumulant 3 2 then (150, 90, 67)
         else (310, 70, 50)))"

section \<open>Surrogate validation (\<open>validation_all\<close>, lines 1539-1551)\<close>

text \<open>
  One pass of the loop over the observables: \<open>Y\<close> is the validation data, \<open>Y'\<close> (the source's \<open>Y_\<close>) the
  emulator's predicted mean and \<open>cov\<close> its predicted covariance for the observable.
  \<open>cov.T.diagonal()\<close> of an array of shape \<open>(n, a, b)\<close> has shape \<open>(n, min a b)\<close> and
  the entry \<open>cov[i, k, k]\<close> at \<open>[i, k]\<close>. The box plots drawn from the percentiles of
  \<open>Z\<close> in between, and the ticks and labels kept after, are display and are not
  part of the model.
\<close>

definition cov_diagonal :: "array3 \<Rightarrow> array2" where
  "cov_diagonal C =
     (let m = min (dim1 C) (dim2 C)
      in Array2 m (map (\<lambda>M. map (\<lambda>k. M ! k ! k) [0..<m]) (mats C)))"

definition column :: "array2 \<Rightarrow> nat \<Rightarrow> npfloat list" where
  "column A j = map (\<lambda>r. r ! j) (rows A)"

text \<open>
  \<open>A.mean(axis=0)\<close>: the sum of each column divided by the number of rows; with no rows
  this is \<open>0.0 / 0\<close>, NaN.
\<close>

definition mean_axis0 :: "array2 \<Rightarrow> npfloat list" where
  "mean_axis0 A =
     map (\<lambda>j. np_div (foldl np_add (Fin 0) (column A j)) (Fin (real (nrows A))))
       [0..<ncols A]"

definition validation_all_body :: "array2 \<Rightarrow> array2 \<Rightarrow> array3
    \<Rightarrow> py_error + (array2 \<times> npfloat list)" where
  "validation_all_body Y Y' cov =
     (let S' = map2d np_sqrt (cov_diagonal cov) in
      and_then (ufunc2 np_sub Y' Y) (\<lambda>D.
      and_then (ufunc2 np_div D S') (\<lambda>Z.
      and_then (ufunc2 np_div Y' Y) (\<lambda>R.
        Inr (Z,
             map (\<lambda>v. np_mul (Fin 100) (np_sqrt v))
               (mean_axis0 (map2d np_square (map2d (\<lambda>v. np_sub v (Fin 1)) R))))))))"

text \<open>The shapes of the contract: \<open>(n, m)\<close> for a 2-D array and \<open>(n, m, m)\<close> for the covariance.\<close>

definition has_shape2 :: "nat \<Rightarrow> nat \<Rightarrow> array2 \<Rightarrow> bool" where
  "has_shape2 n m A = (nrows A = n \<and> ncols A = m \<and> wf2 A)"

definition has_shape3 :: "nat \<Rightarrow> nat \<Rightarrow> array3 \<Rightarrow> bool" where
  "has_shape3 n m C = (length (mats C) = n \<and> dim1 C = m \<and> dim2 C = m \<and> wf3 C)"

text \<open>The entry \<open>A[i, j]\<close> of an array, read inside its shape only.\<close>

definition at2 :: "array2 \<Rightarrow> nat \<Rightarrow> nat \<Rightarrow> npfloat" where
  "at2 A i j = rows A ! i ! j"

definition at3 :: "array3 \<Rightarrow> nat \<Rightarrow> nat \<Rightarrow> nat \<Rightarrow> npfloat" where
  "at3 C i j k = mats C ! i ! j ! k"

text \<open>The formulas of the contract, for one entry and for one channel.\<close>

definition normalized_residual :: "npfloat \<Rightarrow> npfloat \<Rightarrow> npfloat \<Rightarrow> npfloat" where
  "normalized_residual pred truth var = np_div (np_sub pred truth) (np_sqrt var)"

definition rms_percent_error :: "npfloat list \<Rightarrow> npfloat list \<Rightarrow> npfloat" where
  "rms_percent_error preds truths =
     np_mul (Fin 100)
       (np_sqrt (np_div
          (foldl np_add (Fin 0)
             (map2 (\<lambda>p t. np_square (np_sub (np_div p t) (Fin 1))) preds truths))
          (Fin (real (length truths)))))"

text \<open>A value that is \<open>inf\<close> or \<open>nan\<close>; a value above zero.\<close>

definition nonfinite_pos :: "npfloat \<Rightarrow> bool" where
  "nonfinite_pos v = (v = PInf \<or> v = NaN)"

definition np_positive :: "npfloat \<Rightarrow> bool" where
  "np_positive v = np_gt v (Fin 0)"

section \<open>Sign of the principal directions (\<open>pca\<close>, lines 1382-1384)\<close>

text \<open>
  \<open>if np.all(p < 0): p *= -1\<close> on one row \<open>p\<close> of the scaled components.
\<close>

definition pca_flip :: "npfloat list \<Rightarrow> npfloat list" where
  "pca_flip p =
     (if list_all (\<lambda>c. np_lt c (Fin 0)) p then map (\<lambda>c. np_mul c (Fin (- 1))) p else p)"

text \<open>The loop over \<open>zip(pca.explained_variance_ratio_, pc)\<close>: each row with its weight.\<close>

definition pca_arrows :: "npfloat list \<Rightarrow> npfloat list list \<Rightarrow> (npfloat \<times> npfloat list) list" where
  "pca_arrows ratio pc = map (\<lambda>(w, p). (w, pca_flip p)) (zip ratio pc)"

section \<open>Medians and credible intervals\<close>

text \<open>
  \<open>np.sort\<close> orders the values and puts every NaN last; \<open>np.median\<close> of a
  one-dimensional array is NaN when the array is empty or holds a NaN, and otherwise the
  middle value of the sorted array, or the mean of the two middle values.
\<close>

definition sort_le :: "npfloat \<Rightarrow> npfloat \<Rightarrow> bool" where
  "sort_le a b = (b = NaN \<or> np_le a b)"

fun np_insort :: "npfloat \<Rightarrow> npfloat list \<Rightarrow> npfloat list" where
  "np_insort v [] = [v]"
| "np_insort v (w # ws) = (if sort_le v w then v # w # ws else w # np_insort v ws)"

definition np_sort :: "npfloat list \<Rightarrow> npfloat list" where
  "np_sort vs = foldr np_insort vs []"

definition np_median :: "npfloat list \<Rightarrow> npfloat" where
  "np_median vs =
     (if vs = [] \<or> NaN \<in> set vs then NaN
      else let s = np_sort vs; n = length vs in
        if odd n then s ! (n div 2)
        else f64 (np_div (f64 (np_add (s ! (n div 2 - 1)) (s ! (n div 2)))) (Fin 2)))"

text \<open>
  Modelled from the spec: \<open>mcmc.credible_interval\<close> is not among the sources. The
  specification gives it as the pair of the empirical quantiles at \<open>(1 - level)/2\<close> and
  \<open>1 - (1 - level)/2\<close>, each interpolated linearly between the order statistics at the
  floor and the ceiling of \<open>p * (n - 1)\<close>, failing on an empty sample set and on a level
  outside \<open>(0, 1)\<close>. The embedded functions take the interval function as a parameter;
  this definition instantiates it.
\<close>

definition quantile :: "npfloat list \<Rightarrow> real \<Rightarrow> npfloat" where
  "quantile vs p =
     (let s = np_sort vs; pos = p * real (length vs - 1);
          lo = nat \<lfloor>pos\<rfloor>; hi = nat \<lceil>pos\<rceil>
      in np_add (s ! lo) (np_mul (np_sub (s ! hi) (s ! lo)) (Fin (pos - real lo))))"

definition credible_interval :: "npfloat list \<Rightarrow> real \<Rightarrow> py_error + (npfloat \<times> npfloat)" where
  "credible_interval samples level =
     (if samples = [] \<or> \<not> (0 < level \<and> level < 1) then Inl InvalidInput
      else Inr (quantile samples ((1 - level) / 2), quantile samples (1 - (1 - level) / 2)))"


section \<open>Formatting a credible interval (\<open>format_ci\<close>, lines 675-701)\<close>

text \<open>\<open>sep.join(parts)\<close> and \<open>str\<close> of a non-negative integer.\<close>

fun py_join :: "string \<Rightarrow> string list \<Rightarrow> string" where
  "py_join sep [] = []"
| "py_join sep [a] = a"
| "py_join sep (a # b # cs) = a @ sep @ py_join sep (b # cs)"

fun py_str :: "nat \<Rightarrow> string" where
  "py_str n =
     (if n < 10 then [''0123456789'' ! n] else py_str (n div 10) @ [''0123456789'' ! (n mod 10)])"

text \<open>
  \<open>format_ci\<close> takes the interval function (the source's \<open>mcmc.credible_interval\<close>) and
  Python's \<open>str.format\<close> on one float, given its format string, as parameters. The
  two uncertainties are float64 differences, and the literals \<open>.2\<close> and \<open>.02\<close> are the
  float64 values nearest to 0.2 and 0.02.
\<close>

definition format_ci :: "(npfloat list \<Rightarrow> real \<Rightarrow> py_error + (npfloat \<times> npfloat))
    \<Rightarrow> (string \<Rightarrow> npfloat \<Rightarrow> string) \<Rightarrow> npfloat list \<Rightarrow> real \<Rightarrow> py_error + string" where
  "format_ci interval py_format samples ci =
     and_then (interval samples ci) (\<lambda>(cil, cih).
       let median = np_median samples;
           ul = f64 (np_sub median cil);
           uh = f64 (np_sub cih median);
           precision = (if np_lt (np_abs median) (float64 (2 / 10))
                           \<and> np_lt ul (float64 (2 / 100))
                        then 3 else if np_lt (np_abs median) (Fin 1) then 2 else (1::nat));
           fmt = py_join (py_str precision) [''{:#.'', ''f}'']
       in Inr (py_join []
            [''$'', py_format fmt median,
             ''_{-'', py_format fmt ul, ''}'',
             ''^{+'', py_format fmt uh, ''}$'']))"

text \<open>
  The precision rule in the words of the specification, on the median and the lower-side
  uncertainty as real numbers and with the decimal thresholds.
\<close>

definition precision_rule :: "real \<Rightarrow> real \<Rightarrow> nat" where
  "precision_rule median ul =
     (if \<bar>median\<bar> < 0.2 \<and> ul < 0.02 then 3
      else if \<bar>median\<bar> < 1 then 2 else 1)"

section \<open>Bulk-viscosity regimes (\<open>_region_bulk\<close>, lines 978-1034)\<close>

definition Tc :: real where
  "Tc = 154 / 1000"

text \<open>\<open>zetas(T, zetas_max, zetas_width)\<close> at one temperature of the array \<open>T\<close>.\<close>

definition zetas :: "npfloat \<Rightarrow> npfloat \<Rightarrow> npfloat \<Rightarrow> npfloat" where
  "zetas T zetas_max zetas_width =
     np_div zetas_max
       (np_add (Fin 1) (np_square (np_div (np_sub T (Fin Tc)) zetas_width)))"

text \<open>
  \<open>np.linspace(start, stop, num)\<close> with its end point, and the temperatures
  \<open>T = Tc*np.linspace(.5, 1.5, 1000)\<close>.
\<close>

definition np_linspace :: "real \<Rightarrow> real \<Rightarrow> nat \<Rightarrow> real list" where
  "np_linspace start stop num =
     (if num = 1 then [start]
      else map (\<lambda>i. start + real i * ((stop - start) / real (num - 1))) [0..<num])"

definition T_grid :: "npfloat list" where
  "T_grid = map (\<lambda>t. Fin (Tc * t)) (np_linspace (1 / 2) (3 / 2) 1000)"

text \<open>
  \<open>samples[labels == n]\<close>: a boolean mask over the rows, which must be as long as the
  array has rows; \<open>.T\<close> turns the columns of the selection into the rows iterated over.
\<close>

definition mask_rows :: "array2 \<Rightarrow> bool list \<Rightarrow> py_error + array2" where
  "mask_rows A keep =
     (if length keep \<noteq> nrows A then Inl IndexError
      else Inr (Array2 (ncols A) (map fst (filter snd (zip (rows A) keep)))))"

definition transposed_rows :: "array2 \<Rightarrow> npfloat list list" where
  "transposed_rows A = map (column A) [0..<ncols A]"

text \<open>Running a computation that may raise over a list, stopping at the first error.\<close>

fun collect :: "('a \<Rightarrow> py_error + 'b) \<Rightarrow> 'a list \<Rightarrow> py_error + 'b list" where
  "collect f [] = Inr []"
| "collect f (a # as) = and_then (f a) (\<lambda>b. and_then (collect f as) (\<lambda>bs. Inr (b # bs)))"

text \<open>
  \<open>dict(zip(keys, (credible_interval(s)[1] for s in samples[labels == n].T)))\<close>: the
  items in order; \<open>zip\<close> stops at the shorter side, and a later item with the same key
  replaces an earlier one, so the dictionary is read from the reversed items.
\<close>

definition region_bulk_params :: "(npfloat list \<Rightarrow> py_error + (npfloat \<times> npfloat))
    \<Rightarrow> string list \<Rightarrow> array2 \<Rightarrow> nat list \<Rightarrow> nat \<Rightarrow> py_error + (string \<times> npfloat) list" where
  "region_bulk_params interval keys samples labels n =
     and_then (mask_rows samples (map (\<lambda>l. l = n) labels)) (\<lambda>G.
     and_then (collect (\<lambda>(k, s). and_then (interval s) (\<lambda>b. Inr (k, snd b)))
                 (zip keys (transposed_rows G))) (\<lambda>items.
       Inr (rev items)))"

text \<open>
  \<open>zetas(T, **params)\<close>: a keyword the function does not have is a \<open>TypeError\<close>; a
  missing one takes its default, \<open>zetas_max=0\<close> or \<open>zetas_width=1\<close>.
\<close>

definition zetas_kwargs :: "npfloat list \<Rightarrow> (string \<times> npfloat) list \<Rightarrow> py_error + npfloat list" where
  "zetas_kwargs T params =
     (if list_ex (\<lambda>k. k \<noteq> ''zetas_max'' \<and> k \<noteq> ''zetas_width'') (map fst params)
      then Inl TypeError
      else Inr (map (\<lambda>t. zetas t
                  (case map_of params ''zetas_max'' of None \<Rightarrow> Fin 0 | Some v \<Rightarrow> v)
                  (case map_of params ''zetas_width'' of None \<Rightarrow> Fin 1 | Some v \<Rightarrow> v)) T))"

text \<open>
  One pass of the loop over the mixture components: the colour map chosen for the group
  and its representative curve. The labels are those \<open>gmm.predict(samples)\<close> returned.
\<close>

definition region_bulk_group :: "(npfloat list \<Rightarrow> py_error + (npfloat \<times> npfloat))
    \<Rightarrow> npfloat list \<Rightarrow> string list \<Rightarrow> array2 \<Rightarrow> nat list \<Rightarrow> nat
    \<Rightarrow> py_error + (string \<times> npfloat list)" where
  "region_bulk_group interval T keys samples labels n =
     and_then (region_bulk_params interval keys samples labels n) (\<lambda>params.
     and_then (getitem params ''zetas_max'') (\<lambda>zmax.
     and_then (if np_gt zmax (Fin (5 / 100)) then Inr ''Blues''
               else and_then (getitem params ''zetas_width'') (\<lambda>zwidth.
                 Inr (if np_gt zwidth (Fin (3 / 100)) then ''Greens'' else ''Oranges''))) (\<lambda>cmap.
     and_then (zetas_kwargs T params) (\<lambda>curve.
       Inr (cmap, curve)))))"

text \<open>The loop \<open>for n in range(gmm.n_components)\<close>, with the three components of the fit.\<close>

definition region_bulk_full :: "(npfloat list \<Rightarrow> py_error + (npfloat \<times> npfloat))
    \<Rightarrow> npfloat list \<Rightarrow> string list \<Rightarrow> array2 \<Rightarrow> nat list
    \<Rightarrow> py_error + (string \<times> npfloat list) list" where
  "region_bulk_full interval T keys samples labels =
     collect (region_bulk_group interval T keys samples labels) [0..<3]"



text \<open>The format string \<open>'{:#.Nf}'\<close> for the precision \<open>N\<close>.\<close>

definition format_spec :: "nat \<Rightarrow> string" where
  "format_spec p = ''{:#.'' @ py_str p @ ''f}''"

section \<open>Observables with experimental data (\<open>_observables\<close>, lines 219-361)\<close>

text \<open>
  The datasets are nested dictionaries \<open>data[system][obs][subobs]\<close>; a model entry holds
  \<open>x\<close> and the ensemble \<open>Y\<close>, an experimental entry \<open>x\<close>, \<open>y\<close> and the dictionary
  \<open>yerr\<close> of its error sources. The options of a subplot are its optional \<open>label\<close> and
  \<open>scale\<close>.
\<close>

record model_entry =
  model_x :: "npfloat list"
  model_Y :: array2

record expt_entry =
  expt_x :: "npfloat list"
  expt_y :: "npfloat list"
  expt_yerr :: "(string \<times> npfloat list) list"

record subplot_opts =
  opt_label :: "string option"
  opt_scale :: "npfloat option"

type_synonym 'a dataset = "string \<rightharpoonup> (string \<rightharpoonup> (subobs \<rightharpoonup> 'a))"

definition lookup :: "('k \<rightharpoonup> 'v) \<Rightarrow> 'k \<Rightarrow> py_error + 'v" where
  "lookup d k = (case d k of None \<Rightarrow> Inl KeyError | Some v \<Rightarrow> Inr v)"

definition lookup3 :: "'a dataset \<Rightarrow> string \<Rightarrow> string \<Rightarrow> subobs \<Rightarrow> py_error + 'a" where
  "lookup3 d system obs sub =
     and_then (lookup d system) (\<lambda>by_obs.
     and_then (lookup by_obs obs) (\<lambda>by_sub. lookup by_sub sub))"

text \<open>
  The calls on the axes are recorded in order, with the colour as the HSLuv triple that
  \<open>obs_color\<close> hands to the external conversion \<open>hsluv_to_rgb\<close>. matplotlib refuses
  \<open>x\<close> and \<open>y\<close> of different lengths, and an array of errors that is not as long as
  \<open>y\<close>, with a \<open>ValueError\<close>, here \<open>PlotShapeError\<close>.
\<close>

datatype draw =
    Plot "npfloat list" "npfloat list" "int \<times> int \<times> int"
  | Text npfloat npfloat string "int \<times> int \<times> int"
  | Errorbar "npfloat list" "npfloat list" ndvalue

definition ax_plot :: "npfloat list \<Rightarrow> int \<times> int \<times> int \<Rightarrow> npfloat list \<Rightarrow> py_error + draw" where
  "ax_plot x color y = (if length x = length y then Inr (Plot x y color) else Inl PlotShapeError)"

definition ax_errorbar :: "npfloat list \<Rightarrow> npfloat list \<Rightarrow> ndvalue \<Rightarrow> py_error + draw" where
  "ax_errorbar x y yerr =
     (if length x \<noteq> length y then Inl PlotShapeError
      else case yerr of
        Scalar e \<Rightarrow> Inr (Errorbar x y yerr)
      | Array1 es \<Rightarrow> if length es = length y then Inr (Errorbar x y yerr) else Inl PlotShapeError)"

text \<open>
  The label of a subplot, at \<open>(x[-1] + 3, np.median(Y[:, -1]))\<close>: an \<open>IndexError\<close> when
  \<open>x\<close> is empty or \<open>Y\<close> has no column.
\<close>

definition label_text :: "npfloat list \<Rightarrow> array2 \<Rightarrow> int \<times> int \<times> int \<Rightarrow> string option
    \<Rightarrow> py_error + draw list" where
  "label_text x Y color l =
     (case l of
        None \<Rightarrow> Inr []
      | Some s \<Rightarrow>
          if x = [] \<or> ncols Y = 0 then Inl IndexError
          else Inr [Text (np_add (last x) (Fin 3)) (np_median (column Y (ncols Y - 1))) s color])"

text \<open>
  The body of the loop over \<open>plot['subplots']\<close> for one subplot \<open>(obs, subobs, opts)\<close>.
  \<open>samples\<close> is read only when \<open>posterior\<close> is set. The \<open>try\<close> encloses the lookup
  in the experimental data alone, and \<open>except KeyError: continue\<close> ends the pass with
  what has been drawn.
\<close>

definition observables_subplot :: "bool \<Rightarrow> model_entry dataset \<Rightarrow> array2 dataset
    \<Rightarrow> expt_entry dataset \<Rightarrow> string \<Rightarrow> string \<times> subobs \<times> subplot_opts
    \<Rightarrow> py_error + draw list" where
  "observables_subplot posterior model_data samples expt_data system sp =
     (case sp of (obs, sub, opts) \<Rightarrow>
      and_then (obs_color_hsluv obs sub) (\<lambda>color.
      and_then (lookup3 model_data system obs sub) (\<lambda>m.
      and_then (if posterior then lookup3 samples system obs sub else Inr (model_Y m)) (\<lambda>Y0.
      let x = model_x m;
          Y = (case opt_scale opts of None \<Rightarrow> Y0 | Some c \<Rightarrow> map2d (\<lambda>v. np_mul v c) Y0)
      in
      and_then (collect (ax_plot x color) (rows Y)) (\<lambda>curves.
      and_then (label_text x Y color (opt_label opts)) (\<lambda>lab.
        case lookup3 expt_data system obs sub of
          Inl e \<Rightarrow> if e = KeyError then Inr (curves @ lab) else Inl e
        | Inr dset \<Rightarrow>
            and_then (total_yerr (expt_yerr dset)) (\<lambda>yerr0.
            let y = (case opt_scale opts of None \<Rightarrow> expt_y dset
                     | Some c \<Rightarrow> map (\<lambda>v. np_mul v c) (expt_y dset));
                yerr = (case opt_scale opts of None \<Rightarrow> yerr0
                        | Some c \<Rightarrow> nd_map (\<lambda>v. np_mul v c) yerr0)
            in and_then (ax_errorbar (expt_x dset) y yerr) (\<lambda>eb.
                 Inr (curves @ lab @ [eb])))))))))"

text \<open>
  The subplots of \<open>_observables_plots\<close>, by plot title. A backslash of a TeX label is
  the character \<open>0x5C\<close>.
\<close>

definition backslash :: char where
  "backslash = CHR 0x5C"

definition labelled :: "string \<Rightarrow> subplot_opts" where
  "labelled s = \<lparr>opt_label = Some s, opt_scale = None\<rparr>"

definition id_parts_plots :: "string \<Rightarrow> (string \<times> subobs \<times> subplot_opts) list" where
  "id_parts_plots obs =
     map (\<lambda>(species, l). (obs, Species species, labelled l))
       [(''pion'', ''$'' @ [backslash] @ ''pi$''), (''kaon'', ''$K$''), (''proton'', ''$p$'')]"

definition observables_plots :: "(string \<times> (string \<times> subobs \<times> subplot_opts) list) list" where
  "observables_plots =
     [(''Yields'',
        [(''dNch_deta'', NoSub,
            \<lparr>opt_label = Some (''$N_'' @ [backslash] @ ''mathrm{ch}$''), opt_scale = Some (Fin 25)\<rparr>),
         (''dET_deta'', NoSub, \<lparr>opt_label = Some ''$E_T$'', opt_scale = Some (Fin 5)\<rparr>)]
        @ id_parts_plots ''dN_dy''),
      (''Mean $p_T$'', id_parts_plots ''mean_pT''),
      (''Mean $p_T$ fluctuations'',
        [(''pT_fluct'', NoSub, \<lparr>opt_label = None, opt_scale = None\<rparr>)]),
      (''Flow cumulants'',
        map (\<lambda>n. (''vnk'', Cumulant n 2, labelled (''$v_'' @ py_str (nat n) @ ''$''))) [2, 3, 4])]"

text \<open>
  One axis draws the subplots of its plot in order, and \<open>_observables\<close> the axes of
  \<open>itertools.product(plots, systems)\<close>; an exception that is not caught ends the run.
\<close>

definition observables_axis :: "bool \<Rightarrow> model_entry dataset \<Rightarrow> array2 dataset
    \<Rightarrow> expt_entry dataset \<Rightarrow> string \<Rightarrow> (string \<times> subobs \<times> subplot_opts) list
    \<Rightarrow> py_error + draw list" where
  "observables_axis posterior model_data samples expt_data system subplots =
     and_then (collect (observables_subplot posterior model_data samples expt_data system) subplots)
       (\<lambda>drawn. Inr (concat drawn))"

definition observables :: "bool \<Rightarrow> model_entry dataset \<Rightarrow> array2 dataset
    \<Rightarrow> expt_entry dataset \<Rightarrow> string list \<Rightarrow> py_error + (string \<times> string \<times> draw list) list" where
  "observables posterior model_data samples expt_data systems =
     collect (\<lambda>((title, subplots), system).
         and_then (observables_axis posterior model_data samples expt_data system subplots)
           (\<lambda>drawn. Inr (title, system, drawn)))
       (List.product observables_plots systems)"

fun is_errorbar :: "draw \<Rightarrow> bool" where
  "is_errorbar (Errorbar x y yerr) = True"
| "is_errorbar _ = False"

text \<open>The keys \<open>(obs, subobs)\<close> that \<open>_observables\<close> draws.\<close>

definition plotted_subplots :: "(string \<times> subobs \<times> subplot_opts) list" where
  "plotted_subplots = concat (map snd observables_plots)"

section \<open>Normal quantiles of the residual bands (\<open>validation_all\<close>, lines 1568-1576)\<close>

text \<open>
  \<open>q, p = np.sqrt(2) * special.erfinv(2*np.array([.75, .90]) - 1)\<close>, the same line in
  \<open>validation_example\<close> (line 1670), and the ticks \<open>[-p, -q, 0, q, p]\<close> labelled
  \<open>[10, 25, 50, 75, 90]\<close>. scipy's \<open>erfinv\<close> is a parameter, a function on the reals.
\<close>

definition sigma_levels :: "(real \<Rightarrow> real) \<Rightarrow> real \<times> real" where
  "sigma_levels erfinv =
     (sqrt 2 * erfinv (2 * (75 / 100) - 1), sqrt 2 * erfinv (2 * (90 / 100) - 1))"

definition quantile_ticks :: "(real \<Rightarrow> real) \<Rightarrow> (real \<times> real) list" where
  "quantile_ticks erfinv =
     (case sigma_levels erfinv of (q, p) \<Rightarrow> zip [- p, - q, 0, q, p] [10, 25, 50, 75, 90])"

text \<open>
  The quantile of the standard normal distribution at \<open>s\<close> standard deviations, in the
  words of the specification: \<open>quantile_at_sigma(s) = 0.5*(1 + erf(s/sqrt2))\<close>.
\<close>

definition quantile_at_sigma :: "(real \<Rightarrow> real) \<Rightarrow> real \<Rightarrow> real" where
  "quantile_at_sigma erf s = 0.5 * (1 + erf (s / sqrt 2))"

section \<open>Smoothing a histogram (\<open>_posterior\<close>, lines 746-749; \<open>posterior_p\<close>, lines 833-835)\<close>

text \<open>
  Modelled from the spec: scipy's \<open>PchipInterpolator\<close> is not among the sources. The
  specification asks for a shape-preserving cubic interpolant over strictly increasing
  bin centres; that is the piecewise cubic Hermite interpolant, which on the piece from
  \<open>x0\<close> to \<open>x1\<close> is the cubic with the values \<open>y0\<close>, \<open>y1\<close> and the slopes \<open>d0\<close>, \<open>d1\<close>
  at the two ends. The slopes, whose choice makes the interpolant shape-preserving, are
  a parameter. A point is evaluated on the piece whose left end is the last bin centre
  not above it (the first piece below the range, the last piece at and above its end).
  scipy refuses fewer than two points, data of different lengths and bin centres that
  are not strictly increasing with a \<open>ValueError\<close>, here \<open>InterpolationError\<close>.
\<close>

definition hermite :: "real \<Rightarrow> real \<Rightarrow> real \<Rightarrow> real \<Rightarrow> real \<Rightarrow> real \<Rightarrow> real \<Rightarrow> real" where
  "hermite x0 x1 y0 y1 d0 d1 x =
     (let h = x1 - x0; t = (x - x0) / h
      in (2 * t ^ 3 - 3 * t ^ 2 + 1) * y0 + (t ^ 3 - 2 * t ^ 2 + t) * h * d0
         + (3 * t ^ 2 - 2 * t ^ 3) * y1 + (t ^ 3 - t ^ 2) * h * d1)"

fun find_interval :: "real list \<Rightarrow> real \<Rightarrow> nat" where
  "find_interval (a # b # c # xs) x = (if x < b then 0 else Suc (find_interval (b # c # xs) x))"
| "find_interval xs x = 0"

definition pchip_eval :: "real list \<Rightarrow> real list \<Rightarrow> real list \<Rightarrow> real \<Rightarrow> real" where
  "pchip_eval xs ys ds x =
     (let i = find_interval xs x
      in hermite (xs ! i) (xs ! Suc i) (ys ! i) (ys ! Suc i) (ds ! i) (ds ! Suc i) x)"

definition PchipInterpolator :: "real list \<Rightarrow> real list \<Rightarrow> real list
    \<Rightarrow> py_error + (real \<Rightarrow> real)" where
  "PchipInterpolator xs ys ds =
     (if length xs < 2 \<or> length ys \<noteq> length xs \<or> \<not> sorted_wrt (<) xs
      then Inl InterpolationError
      else Inr (pchip_eval xs ys ds))"

text \<open>
  The smoothed curve of the source: \<open>interp = PchipInterpolator(x, y)\<close>,
  \<open>x = np.linspace(x[0], x[-1], 10*x.size)\<close>, \<open>y = interp(x)\<close>.
\<close>

definition smooth_curve :: "real list \<Rightarrow> real list \<Rightarrow> real list
    \<Rightarrow> py_error + (real list \<times> real list)" where
  "smooth_curve xs ys ds =
     and_then (PchipInterpolator xs ys ds) (\<lambda>interp.
       if xs = [] then Inl IndexError
       else let grid = np_linspace (hd xs) (last xs) (10 * length xs)
            in Inr (grid, map interp grid))"

section \<open>Theorems\<close>

lemma getitem_not_unknown: "getitem d k \<noteq> Inl (UnknownObservable a b)"
  by (simp add: getitem_def split: option.split)

text \<open>
  C10. \<open>obs_color_hsluv\<close> raises the \<open>ValueError\<close> that reports an unknown observable
  exactly when the observable name is none of dNch_deta, pT_fluct, dET_deta, dN_dy,
  mean_pT and vnk; the error carries the observable and sub-observable it was called with.
  For a known name with a sub-observable it has a colour for, it returns the fixed
  triple of the colour table.
\<close>

theorem obs_color_hsluv_unknown_iff:
  "((\<exists>a b. obs_color_hsluv obs sub = Inl (UnknownObservable a b)) \<longleftrightarrow> obs \<notin> known_observables)
   \<and> (obs \<notin> known_observables \<longrightarrow> obs_color_hsluv obs sub = Inl (UnknownObservable obs sub))
   \<and> (obs \<in> known_observables \<and> valid_subobs obs sub \<longrightarrow>
        obs_color_hsluv obs sub = Inr (color_table obs sub))"
proof (intro conjI impI)
  show "(\<exists>a b. obs_color_hsluv obs sub = Inl (UnknownObservable a b)) \<longleftrightarrow> obs \<notin> known_observables"
    by (auto simp add: obs_color_hsluv_def known_observables_def getitem_not_unknown)
next
  assume "obs \<notin> known_observables"
  then show "obs_color_hsluv obs sub = Inl (UnknownObservable obs sub)"
    by (simp add: obs_color_hsluv_def known_observables_def)
next
  assume "obs \<in> known_observables \<and> valid_subobs obs sub"
  then show "obs_color_hsluv obs sub = Inr (color_table obs sub)"
    by (auto simp add: obs_color_hsluv_def known_observables_def valid_subobs_def
        color_table_def getitem_def species_colors_def cumulant_colors_def)
qed

theorem obs_color_hsluv_unknown_iff_witness:
  "obs_color_hsluv ''vnk'' (Cumulant 2 4) = Inr (262, 80, 63)
   \<and> obs_color_hsluv ''nope'' NoSub = Inl (UnknownObservable ''nope'' NoSub)
   \<and> obs_color_hsluv ''dN_dy'' NoSub = Inl KeyError"
proof -
  have k: "''vnk'' \<in> known_observables \<and> valid_subobs ''vnk'' (Cumulant 2 4)"
    by (simp add: known_observables_def valid_subobs_def cumulant_colors_def)
  have u: "''nope'' \<notin> known_observables"
    by (simp add: known_observables_def)
  have "obs_color_hsluv ''vnk'' (Cumulant 2 4) = Inr (color_table ''vnk'' (Cumulant 2 4))"
    using obs_color_hsluv_unknown_iff [of "''vnk''" "Cumulant 2 4"] k by blast
  moreover have "obs_color_hsluv ''nope'' NoSub = Inl (UnknownObservable ''nope'' NoSub)"
    using obs_color_hsluv_unknown_iff [of "''nope''" NoSub] u by blast
  moreover have "obs_color_hsluv ''dN_dy'' NoSub = Inl KeyError"
    by (simp add: obs_color_hsluv_def getitem_def species_colors_def)
  ultimately show ?thesis
    by (simp add: color_table_def)
qed

subsection \<open>Total experimental error\<close>

lemma np_add_zero_left: "np_add (Fin 0) x = x"
  by (cases x) simp_all

lemma ufunc1_same_length:
  "length xs = length ys \<Longrightarrow> ufunc1 f xs ys = Inr (map2 f xs ys)"
  by (simp add: ufunc1_def bshape_def stretch_def and_then_def)

lemma py_sum_from_arrays:
  "length acc = n \<Longrightarrow> \<forall>e\<in>set es. length e = n \<Longrightarrow>
   py_sum_from (Array1 acc) (map (\<lambda>e. Array1 (map np_square e)) es)
     = Inr (Array1 (map (\<lambda>i. foldl np_add (acc ! i) (map (\<lambda>e. np_square (e ! i)) es)) [0..<n]))"
proof (induction es arbitrary: acc)
  case Nil
  then have "n = length acc" by simp
  then show ?case by (simp add: map_nth)
next
  case (Cons e es)
  let ?acc = "map2 np_add acc (map np_square e)"
  have len: "length ?acc = n" using Cons.prems by simp
  have step: "nd_add (Array1 acc) (Array1 (map np_square e)) = Inr (Array1 ?acc)"
    using Cons.prems by (simp add: ufunc1_same_length and_then_def)
  have "py_sum_from (Array1 ?acc) (map (\<lambda>e. Array1 (map np_square e)) es)
      = Inr (Array1 (map (\<lambda>i. foldl np_add (?acc ! i) (map (\<lambda>e. np_square (e ! i)) es)) [0..<n]))"
    using Cons.IH [OF len] Cons.prems by simp
  moreover have "map (\<lambda>i. foldl np_add (?acc ! i) (map (\<lambda>e. np_square (e ! i)) es)) [0..<n]
      = map (\<lambda>i. foldl np_add (acc ! i) (map (\<lambda>e. np_square (e ! i)) (e # es))) [0..<n]"
    using Cons.prems by simp
  ultimately show ?case using step by (simp add: and_then_def)
qed

lemma py_sum_squares:
  assumes "es \<noteq> []" and "\<forall>e\<in>set es. length e = n"
  shows "py_sum (map (\<lambda>e. Array1 (map np_square e)) es)
     = Inr (Array1 (map (\<lambda>i. foldl np_add (Fin 0) (map (\<lambda>e. np_square (e ! i)) es)) [0..<n]))"
proof -
  obtain e es' where es: "es = e # es'" using assms(1) by (cases es) auto
  let ?acc = "map (np_add (Fin 0)) (map np_square e)"
  have len: "length ?acc = n" using assms(2) es by simp
  have rest: "\<forall>e\<in>set es'. length e = n" using assms(2) es by simp
  have "py_sum_from (Array1 ?acc) (map (\<lambda>e. Array1 (map np_square e)) es')
     = Inr (Array1 (map (\<lambda>i. foldl np_add (?acc ! i) (map (\<lambda>e. np_square (e ! i)) es')) [0..<n]))"
    by (rule py_sum_from_arrays [OF len rest])
  moreover have "map (\<lambda>i. foldl np_add (?acc ! i) (map (\<lambda>e. np_square (e ! i)) es')) [0..<n]
     = map (\<lambda>i. foldl np_add (Fin 0) (map (\<lambda>e. np_square (e ! i)) es)) [0..<n]"
    using assms(2) es by (simp add: np_add_zero_left)
  ultimately show ?thesis
    by (simp add: py_sum_def es and_then_def)
qed

text \<open>
  C7. With one or more error sources, all aligned with the same \<open>n\<close> bins, the total
  error is an array of \<open>n\<close> entries, and its entry at each bin is the quadrature sum (the
  square root of the sum of the squares) of the sources' errors at that bin.
\<close>

theorem total_yerr_quadrature:
  assumes "yerr \<noteq> []" and "\<forall>e\<in>set (map snd yerr). length e = n"
  shows "\<exists>t. total_yerr yerr = Inr (Array1 t) \<and> length t = n
     \<and> (\<forall>i<n. t ! i = quadrature (map (\<lambda>e. e ! i) (map snd yerr)))"
proof -
  have ne: "map snd yerr \<noteq> []" using assms(1) by simp
  show ?thesis
    using py_sum_squares [OF ne assms(2)]
    by (simp add: total_yerr_def and_then_def quadrature_def comp_def)
qed

lemma foldl_np_add_Fin:
  "foldl np_add (Fin a) (map np_square (map Fin rs)) = Fin (a + (\<Sum>r\<leftarrow>rs. r\<^sup>2))"
  by (induction rs arbitrary: a) (simp_all add: np_square_def power2_eq_square add.assoc)

lemma quadrature_finite: "quadrature (map Fin rs) = Fin (sqrt (\<Sum>r\<leftarrow>rs. r\<^sup>2))"
proof -
  have "0 \<le> (\<Sum>r\<leftarrow>rs. r\<^sup>2)" by (induction rs) simp_all
  then show ?thesis unfolding quadrature_def foldl_np_add_Fin by simp
qed

theorem total_yerr_quadrature_witness:
  "total_yerr [(''stat'', [Fin 3, Fin 0]), (''sys'', [Fin 4, Fin 2])] = Inr (Array1 [Fin 5, Fin 2])"
proof -
  let ?y = "[(''stat'', [Fin 3, Fin 0]), (''sys'', [Fin 4, Fin 2])]"
  have a: "?y \<noteq> []" by simp
  have b: "\<forall>e\<in>set (map snd ?y). length e = 2" by simp
  obtain t where t: "total_yerr ?y = Inr (Array1 t)" "length t = 2"
    "\<forall>i<2. t ! i = quadrature (map (\<lambda>e. e ! i) (map snd ?y))"
    using total_yerr_quadrature [OF a b] by blast
  have q0: "quadrature [Fin 3, Fin 4] = Fin 5"
    using quadrature_finite [of "[3, 4]"] real_sqrt_abs [of 5] by simp 
  have q1: "quadrature [Fin 0, Fin 2] = Fin 2"
    using quadrature_finite [of "[0, 2]"] real_sqrt_abs [of 2] by simp 
  have "t ! 0 = Fin 5" "t ! 1 = Fin 2" using t(3) q0 q1 by simp_all
  then have "t = [Fin 5, Fin 2]" using t(2)
    by (cases t; cases "tl t"; cases "tl (tl t)") auto
  then show ?thesis using t(1) by simp
qed

subsection \<open>Surrogate validation\<close>

lemma map2_cong_set:
  "(\<And>r s. r \<in> set xs \<Longrightarrow> s \<in> set ys \<Longrightarrow> f r s = g r s) \<Longrightarrow> map2 f xs ys = map2 g xs ys"
  by (rule map_cong [OF refl]) (auto dest: set_zip_leftD set_zip_rightD)

lemma ufunc2_same_shape:
  assumes "has_shape2 n m A" "has_shape2 n m B"
  shows "ufunc2 f A B = Inr (Array2 m (map2 (map2 f) (rows A) (rows B)))"
proof -
  have "map2 (\<lambda>r s. map2 f (stretch m r) (stretch m s)) (rows A) (rows B)
      = map2 (map2 f) (rows A) (rows B)"
    using assms
    by (intro map2_cong_set) (simp add: has_shape2_def wf2_def list_all_iff stretch_def)
  then show ?thesis
    using assms by (simp add: ufunc2_def bshape_def and_then_def has_shape2_def nrows_def stretch_def)
qed

lemma has_shape2_map2:
  assumes "has_shape2 n m A" "has_shape2 n m B"
  shows "has_shape2 n m (Array2 m (map2 (map2 f) (rows A) (rows B)))"
proof -
  have "length (map2 f r s) = m" if "(r, s) \<in> set (zip (rows A) (rows B))" for r s
    using assms set_zip_leftD [OF that] set_zip_rightD [OF that]
    by (simp add: has_shape2_def wf2_def list_all_iff)
  then show ?thesis
    using assms by (auto simp add: has_shape2_def wf2_def nrows_def list_all_iff)
qed

lemma has_shape2_map2d: "has_shape2 n m A \<Longrightarrow> has_shape2 n m (map2d f A)"
  by (auto simp add: has_shape2_def wf2_def nrows_def map2d_def list_all_iff)

lemma has_shape2_cov_diagonal: "has_shape3 n m C \<Longrightarrow> has_shape2 n m (cov_diagonal C)"
  by (auto simp add: has_shape2_def has_shape3_def wf2_def nrows_def cov_diagonal_def list_all_iff)

lemma at2_map2:
  assumes "has_shape2 n m A" "has_shape2 n m B" "i < n" "j < m"
  shows "at2 (Array2 m (map2 (map2 f) (rows A) (rows B))) i j = f (at2 A i j) (at2 B i j)"
  using assms
  by (simp add: at2_def has_shape2_def wf2_def nrows_def list_all_length)

lemma at2_map2d: 
  assumes "has_shape2 n m A" "i < n" "j < m"
  shows "at2 (map2d f A) i j = f (at2 A i j)"
  using assms
  by (simp add: at2_def has_shape2_def wf2_def nrows_def list_all_length map2d_def)

lemma at2_cov_diagonal:
  assumes "has_shape3 n m C" "i < n" "j < m"
  shows "at2 (cov_diagonal C) i j = at3 C i j j"
  using assms
  by (simp add: at2_def at3_def has_shape3_def cov_diagonal_def)

lemma column_nth:
  "has_shape2 n m A \<Longrightarrow> column A j = map (\<lambda>i. at2 A i j) [0..<n]"
  by (auto simp add: column_def at2_def has_shape2_def nrows_def intro!: nth_equalityI)

text \<open>What one pass computes on arrays of the contract's shapes, entry by entry.\<close>

lemma validation_all_body_entries:
  assumes Y: "has_shape2 n m Y" and P: "has_shape2 n m Y'" and C: "has_shape3 n m cov"
  shows "\<exists>Z rms. validation_all_body Y Y' cov = Inr (Z, rms)
     \<and> has_shape2 n m Z \<and> length rms = m
     \<and> (\<forall>i<n. \<forall>j<m. at2 Z i j = normalized_residual (at2 Y' i j) (at2 Y i j) (at3 cov i j j))
     \<and> (\<forall>j<m. rms ! j = rms_percent_error (column Y' j) (column Y j))"
proof -
  let ?S = "map2d np_sqrt (cov_diagonal cov)"
  let ?D = "Array2 m (map2 (map2 np_sub) (rows Y') (rows Y))"
  let ?Z = "Array2 m (map2 (map2 np_div) (rows ?D) (rows ?S))"
  let ?R = "Array2 m (map2 (map2 np_div) (rows Y') (rows Y))"
  let ?Q = "map2d np_square (map2d (\<lambda>v. np_sub v (Fin 1)) ?R)"
  let ?rms = "map (\<lambda>v. np_mul (Fin 100) (np_sqrt v)) (mean_axis0 ?Q)"
  have S: "has_shape2 n m ?S"
    by (rule has_shape2_map2d [OF has_shape2_cov_diagonal [OF C]])
  have D: "has_shape2 n m ?D" by (rule has_shape2_map2 [OF P Y])
  have Z: "has_shape2 n m ?Z" by (rule has_shape2_map2 [OF D S])
  have R: "has_shape2 n m ?R" by (rule has_shape2_map2 [OF P Y])
  have Q: "has_shape2 n m ?Q" by (intro has_shape2_map2d R)
  have eq: "validation_all_body Y Y' cov = Inr (?Z, ?rms)"
    by (simp add: validation_all_body_def Let_def and_then_def
        ufunc2_same_shape [OF P Y] ufunc2_same_shape [OF D S])
  have ent: "at2 ?Z i j = normalized_residual (at2 Y' i j) (at2 Y i j) (at3 cov i j j)"
    if "i < n" "j < m" for i j
    unfolding at2_map2 [OF D S that] at2_map2 [OF P Y that]
      at2_map2d [OF has_shape2_cov_diagonal [OF C] that] at2_cov_diagonal [OF C that]
    by (simp add: normalized_residual_def)
  have Qent: "at2 ?Q i j = np_square (np_sub (np_div (at2 Y' i j) (at2 Y i j)) (Fin 1))"
    if "i < n" "j < m" for i j
    unfolding at2_map2d [OF has_shape2_map2d [OF R] that] at2_map2d [OF R that]
      at2_map2 [OF P Y that] by simp
  have ncQ: "ncols ?Q = m" "nrows ?Q = n" using Q by (simp_all add: has_shape2_def)
  have lenY: "length (column Y j) = n" "length (column Y' j) = n" for j
    using Y P by (simp_all add: column_def has_shape2_def nrows_def)
  have col: "column ?Q j = map2 (\<lambda>p t. np_square (np_sub (np_div p t) (Fin 1))) (column Y' j) (column Y j)"
    if "j < m" for j
    unfolding column_nth [OF Q] column_nth [OF Y] column_nth [OF P]
    using Qent that by (auto intro!: nth_equalityI)
  have rms: "?rms ! j = rms_percent_error (column Y' j) (column Y j)" if "j < m" for j
    using that col [OF that] lenY
    by (simp add: mean_axis0_def ncQ rms_percent_error_def)
  have "length ?rms = m" by (simp add: mean_axis0_def ncQ)
  with eq Z ent rms show ?thesis by blast
qed

lemma np_add_keeps_off_NInf: "a \<noteq> NInf \<Longrightarrow> b \<noteq> NInf \<Longrightarrow> np_add a b \<noteq> NInf"
  by (cases a; cases b) simp_all

lemma np_add_nonfinite_left: "nonfinite_pos a \<Longrightarrow> b \<noteq> NInf \<Longrightarrow> nonfinite_pos (np_add a b)"
  by (cases a; cases b) (simp_all add: nonfinite_pos_def)

lemma np_add_nonfinite_right: "a \<noteq> NInf \<Longrightarrow> nonfinite_pos b \<Longrightarrow> nonfinite_pos (np_add a b)"
  by (cases a; cases b) (simp_all add: nonfinite_pos_def)

lemma foldl_np_add_nonfinite:
  "\<forall>v\<in>set vs. v \<noteq> NInf \<Longrightarrow> acc \<noteq> NInf \<Longrightarrow> nonfinite_pos acc \<or> (\<exists>v\<in>set vs. nonfinite_pos v)
   \<Longrightarrow> nonfinite_pos (foldl np_add acc vs)"
proof (induction vs arbitrary: acc)
  case Nil
  then show ?case by simp
next
  case (Cons v vs)
  have v: "v \<noteq> NInf" and vs: "\<forall>v\<in>set vs. v \<noteq> NInf" using Cons.prems(1) by simp_all
  have acc': "np_add acc v \<noteq> NInf" using np_add_keeps_off_NInf [OF Cons.prems(2) v] .
  have "nonfinite_pos (np_add acc v) \<or> (\<exists>v\<in>set vs. nonfinite_pos v)"
    using Cons.prems(3) np_add_nonfinite_left [OF _ v] np_add_nonfinite_right [OF Cons.prems(2)]
    by auto
  then show ?case using Cons.IH [OF vs acc'] by simp
qed

lemma np_square_not_NInf: "np_square v \<noteq> NInf"
  by (cases v) (simp_all add: np_square_def)

lemma percent_term_zero_truth:
  "nonfinite_pos (np_square (np_sub (np_div p (Fin 0)) (Fin 1)))"
  by (cases p) (simp_all add: np_square_def np_sub_def signed_inf_def nonfinite_pos_def)

lemma rms_percent_error_zero_truth:
  assumes len: "length ps = length ts" and i: "i < length ts" and z: "ts ! i = Fin 0"
  shows "nonfinite_pos (rms_percent_error ps ts)"
proof -
  let ?terms = "map2 (\<lambda>p t. np_square (np_sub (np_div p t) (Fin 1))) ps ts"
  have "?terms ! i = np_square (np_sub (np_div (ps ! i) (Fin 0)) (Fin 1))"
    using len i z by simp
  then have "nonfinite_pos (?terms ! i)" by (simp add: percent_term_zero_truth)
  moreover have "?terms ! i \<in> set ?terms" using len i by (intro nth_mem) simp
  ultimately have ex: "\<exists>v\<in>set ?terms. nonfinite_pos v" by blast
  have off: "\<forall>v\<in>set ?terms. v \<noteq> NInf" by (auto simp add: np_square_not_NInf)
  have s: "nonfinite_pos (foldl np_add (Fin 0) ?terms)"
    by (rule foldl_np_add_nonfinite [OF off]) (use ex in simp_all)
  have "0 < length ts" using i by (rule le_less_trans [OF le0])
  then have n: "0 < real (length ts)" by simp
  show ?thesis
    using s n unfolding rms_percent_error_def nonfinite_pos_def
    by (auto simp add: signed_inf_def)
qed

text \<open>
  C1, as stated, fails: with the ground truth \<open>[[0.0]]\<close>, the prediction \<open>[[1.0]]\<close> and
  the covariance \<open>[[[1.0]]]\<close> the pass raises nothing and returns the residual 1 and
  the RMS percent error \<open>inf\<close>.
\<close>

theorem validation_zero_truth_counterexample:
  "validation_all_body (Array2 1 [[Fin 0]]) (Array2 1 [[Fin 1]]) (Array3 1 1 [[[Fin 1]]])
     = Inr (Array2 1 [[Fin 1]], [PInf])"
  by (simp add: validation_all_body_def ufunc2_def bshape_def and_then_def nrows_def stretch_def
      map2d_def cov_diagonal_def mean_axis0_def column_def np_sub_def np_square_def signed_inf_def)

text \<open>
  C1, amended. On arrays of the shapes \<open>(n, m)\<close>, \<open>(n, m)\<close> and \<open>(n, m, m)\<close> with a
  ground-truth entry \<open>Y[i, j]\<close> exactly zero, the pass raises no error: it returns, the RMS
  percent error of channel \<open>j\<close> is \<open>inf\<close> or \<open>nan\<close>, and the normalized residual at
  \<open>[i, j]\<close> is the prediction over the predicted standard deviation, which does not
  divide by the ground truth.
\<close>

theorem validation_zero_truth_returns:
  assumes "has_shape2 n m Y" and "has_shape2 n m Y'" and "has_shape3 n m cov"
    and "i < n" and "j < m" and "at2 Y i j = Fin 0"
  shows "\<exists>Z rms. validation_all_body Y Y' cov = Inr (Z, rms)
     \<and> length rms = m \<and> (rms ! j = PInf \<or> rms ! j = NaN)
     \<and> at2 Z i j = normalized_residual (at2 Y' i j) (Fin 0) (at3 cov i j j)"
proof -
  obtain Z rms where r: "validation_all_body Y Y' cov = Inr (Z, rms)" "length rms = m"
      "\<forall>i<n. \<forall>j<m. at2 Z i j = normalized_residual (at2 Y' i j) (at2 Y i j) (at3 cov i j j)"
      "\<forall>j<m. rms ! j = rms_percent_error (column Y' j) (column Y j)"
    using validation_all_body_entries [OF assms(1-3)] by blast
  have len: "length (column Y' j) = length (column Y j)" "i < length (column Y j)"
    using assms(1,2,4) by (simp_all add: column_def has_shape2_def nrows_def)
  have z: "column Y j ! i = Fin 0"
    using assms(1,4,6) by (simp add: column_def at2_def has_shape2_def nrows_def)
  have "nonfinite_pos (rms ! j)"
    using r(4) assms(5) rms_percent_error_zero_truth [OF len z] by simp
  then show ?thesis using r assms(4-6) by (auto simp add: nonfinite_pos_def)
qed

theorem validation_zero_truth_returns_witness:
  "\<exists>Z rms. validation_all_body (Array2 2 [[Fin 2, Fin 0]]) (Array2 2 [[Fin 3, Fin 0]])
       (Array3 2 2 [[[Fin 4, Fin 0], [Fin 0, Fin 1]]]) = Inr (Z, rms)
     \<and> length rms = 2 \<and> (rms ! 1 = PInf \<or> rms ! 1 = NaN)
     \<and> at2 Z 0 1 = Fin 0"
proof -
  let ?Y = "Array2 2 [[Fin 2, Fin 0]]" and ?P = "Array2 2 [[Fin 3, Fin 0]]"
  let ?C = "Array3 2 2 [[[Fin 4, Fin 0], [Fin 0, Fin 1]]]"
  have a: "has_shape2 1 2 ?Y" "has_shape2 1 2 ?P" "has_shape3 1 2 ?C"
    by (simp_all add: has_shape2_def has_shape3_def wf2_def wf3_def nrows_def)
  have b: "(0::nat) < 1" "(1::nat) < 2" "at2 ?Y 0 1 = Fin 0" by (simp_all add: at2_def)
  have "normalized_residual (at2 ?P 0 1) (Fin 0) (at3 ?C 0 1 1) = Fin 0"
    by (simp add: normalized_residual_def at2_def at3_def np_sub_def)
  then show ?thesis
    using validation_zero_truth_returns [OF a b] by simp
qed

lemma normalized_residual_exact:
  "np_positive var \<Longrightarrow> normalized_residual (Fin a) (Fin a) var = Fin 0"
  by (cases var) (simp_all add: normalized_residual_def np_sub_def np_positive_def np_gt_def)

lemma foldl_np_add_zeros: "\<forall>v\<in>set vs. v = Fin 0 \<Longrightarrow> foldl np_add (Fin 0) vs = Fin 0"
  by (induction vs) simp_all

lemma rms_percent_error_exact:
  assumes "ts \<noteq> []" and "\<forall>t\<in>set ts. \<exists>a. t = Fin a \<and> a \<noteq> 0"
  shows "rms_percent_error ts ts = Fin 0"
proof -
  have "np_square (np_sub (np_div t t) (Fin 1)) = Fin 0" if "t \<in> set ts" for t
  proof -
    obtain a where "t = Fin a" "a \<noteq> 0" using assms(2) \<open>t \<in> set ts\<close> by blast
    then show ?thesis by (simp add: np_square_def np_sub_def)
  qed
  then have "\<forall>v\<in>set (map2 (\<lambda>p t. np_square (np_sub (np_div p t) (Fin 1))) ts ts). v = Fin 0"
    by (auto simp add: zip_same)
  then have "foldl np_add (Fin 0) (map2 (\<lambda>p t. np_square (np_sub (np_div p t) (Fin 1))) ts ts) = Fin 0"
    by (rule foldl_np_add_zeros)
  then show ?thesis using assms(1) by (simp add: rms_percent_error_def)
qed

text \<open>
  C5, as stated, fails: a prediction equal to the ground truth \<open>[[0.0]]\<close>, with the
  positive covariance \<open>[[[1.0]]]\<close>, gives the RMS percent error \<open>nan\<close> (from \<open>0/0\<close>).
\<close>

theorem validation_exact_counterexample:
  "validation_all_body (Array2 1 [[Fin 0]]) (Array2 1 [[Fin 0]]) (Array3 1 1 [[[Fin 1]]])
     = Inr (Array2 1 [[Fin 0]], [NaN])"
  by (simp add: validation_all_body_def ufunc2_def bshape_def and_then_def nrows_def stretch_def
      map2d_def cov_diagonal_def mean_axis0_def column_def np_sub_def np_square_def signed_inf_def)

text \<open>
  C5, amended. With at least one row, a prediction equal to a ground truth all of whose
  entries are finite and not zero, and a covariance whose diagonal entries are positive,
  every normalized residual is zero and the RMS percent error of every channel is zero.
\<close>

theorem validation_exact_prediction:
  assumes "has_shape2 n m Y" and "has_shape3 n m cov" and "0 < n"
    and "\<forall>i<n. \<forall>j<m. \<exists>a. at2 Y i j = Fin a \<and> a \<noteq> 0"
    and "\<forall>i<n. \<forall>j<m. np_positive (at3 cov i j j)"
  shows "\<exists>Z rms. validation_all_body Y Y cov = Inr (Z, rms)
     \<and> has_shape2 n m Z \<and> length rms = m
     \<and> (\<forall>i<n. \<forall>j<m. at2 Z i j = Fin 0) \<and> (\<forall>j<m. rms ! j = Fin 0)"
proof -
  obtain Z rms where r: "validation_all_body Y Y cov = Inr (Z, rms)" "has_shape2 n m Z"
      "length rms = m"
      "\<forall>i<n. \<forall>j<m. at2 Z i j = normalized_residual (at2 Y i j) (at2 Y i j) (at3 cov i j j)"
      "\<forall>j<m. rms ! j = rms_percent_error (column Y j) (column Y j)"
    using validation_all_body_entries [OF assms(1) assms(1) assms(2)] by blast
  have Z: "at2 Z i j = Fin 0" if ij: "i < n" "j < m" for i j
  proof -
    obtain a where "at2 Y i j = Fin a" using assms(4) ij by blast
    then show ?thesis using r(4) assms(5) ij by (simp add: normalized_residual_exact)
  qed
  have R: "rms ! j = Fin 0" if "j < m" for j
  proof -
    have col: "column Y j = map (\<lambda>i. at2 Y i j) [0..<n]" by (rule column_nth [OF assms(1)])
    have ne: "column Y j \<noteq> []" using assms(3) col by simp
    have "\<forall>t\<in>set (column Y j). \<exists>a. t = Fin a \<and> a \<noteq> 0"
      using assms(4) that unfolding col by auto
    then show ?thesis using r(5) that rms_percent_error_exact [OF ne] by simp
  qed
  show ?thesis using r(1-3) Z R by blast
qed

theorem validation_exact_prediction_witness:
  "validation_all_body (Array2 2 [[Fin 2, Fin (- 3)]]) (Array2 2 [[Fin 2, Fin (- 3)]])
       (Array3 2 2 [[[Fin 4, Fin 0], [Fin 0, PInf]]])
     = Inr (Array2 2 [[Fin 0, Fin 0]], [Fin 0, Fin 0])"
proof -
  let ?Y = "Array2 2 [[Fin 2, Fin (- 3)]]"
  let ?C = "Array3 2 2 [[[Fin 4, Fin 0], [Fin 0, PInf]]]"
  have a: "has_shape2 1 2 ?Y" "has_shape3 1 2 ?C" "(0::nat) < 1"
    by (simp_all add: has_shape2_def has_shape3_def wf2_def wf3_def nrows_def)
  have b: "\<forall>i<1. \<forall>j<2. \<exists>a. at2 ?Y i j = Fin a \<and> a \<noteq> 0"
    by (simp add: at2_def less_Suc_eq numeral_2_eq_2)
  have c: "\<forall>i<1. \<forall>j<2. np_positive (at3 ?C i j j)"
    by (simp add: at3_def less_Suc_eq numeral_2_eq_2 np_positive_def np_gt_def)
  obtain Z rms where r: "validation_all_body ?Y ?Y ?C = Inr (Z, rms)" "has_shape2 1 2 Z"
     "length rms = 2" "\<forall>i<1. \<forall>j<2. at2 Z i j = Fin 0" "\<forall>j<2. rms ! j = Fin 0"
    using validation_exact_prediction [OF a b c] by blast
  have "rms ! 0 = Fin 0" "rms ! 1 = Fin 0" using r(5) by simp_all
  then have rms: "rms = [Fin 0, Fin 0]" using r(3)
    by (cases rms; cases "tl rms"; cases "tl (tl rms)") auto
  obtain k rs where Zc: "Z = Array2 k rs" by (cases Z)
  have k: "k = 2" "length rs = 1" "length (rs ! 0) = 2" using r(2) Zc
    by (auto simp add: has_shape2_def nrows_def wf2_def list_all_length)
  have "rs ! 0 ! 0 = Fin 0" "rs ! 0 ! 1 = Fin 0" using r(4) Zc by (simp_all add: at2_def)
  then have "rs ! 0 = [Fin 0, Fin 0]" using k(3)
    by (cases "rs ! 0"; cases "tl (rs ! 0)"; cases "tl (tl (rs ! 0))") auto
  then have "rs = [[Fin 0, Fin 0]]" using k(2) by (cases rs) auto
  then show ?thesis using r(1) rms Zc k(1) by simp
qed


subsection \<open>Sign of the principal directions\<close>

lemma np_mul_minus_one: "np_mul c (Fin (- 1)) = np_neg c"
  by (cases c) (simp_all add: signed_inf_def)

text \<open>
  C2, as stated, fails: every coordinate of \<open>(0, -1)\<close> is at most 0, and the vector is
  left as it is, not negated to \<open>(0, 1)\<close>.
\<close>

theorem pca_flip_nonpositive_counterexample:
  "list_all (\<lambda>c. np_le c (Fin 0)) [Fin 0, Fin (- 1)]
   \<and> pca_flip [Fin 0, Fin (- 1)] = [Fin 0, Fin (- 1)]
   \<and> map np_neg [Fin 0, Fin (- 1)] = [Fin 0, Fin 1]"
  by (simp add: pca_flip_def)

text \<open>
  C2, amended. A direction all of whose coordinates are strictly negative is negated as
  a whole; every other direction is left unchanged, in particular one with a positive
  coordinate.
\<close>

theorem pca_flip_strictly_negative:
  "(list_all (\<lambda>c. np_lt c (Fin 0)) p \<longrightarrow> pca_flip p = map np_neg p)
   \<and> (\<not> list_all (\<lambda>c. np_lt c (Fin 0)) p \<longrightarrow> pca_flip p = p)
   \<and> ((\<exists>c\<in>set p. np_gt c (Fin 0)) \<longrightarrow> pca_flip p = p)"
proof (intro conjI impI)
  assume "\<exists>c\<in>set p. np_gt c (Fin 0)"
  then obtain c where c: "c \<in> set p" "np_lt (Fin 0) c" by (auto simp add: np_gt_def)
  have "\<not> np_lt c (Fin 0)" using c(2) by (cases c) simp_all
  with c(1) have "\<not> list_all (\<lambda>c. np_lt c (Fin 0)) p" by (auto simp add: list_all_iff)
  then show "pca_flip p = p" by (simp add: pca_flip_def)
qed (simp_all add: pca_flip_def np_mul_minus_one)

theorem pca_flip_strictly_negative_witness:
  "pca_flip [Fin (- 2), Fin (- 1)] = [Fin 2, Fin 1]
   \<and> pca_flip [Fin (- 2), Fin 0] = [Fin (- 2), Fin 0]
   \<and> pca_flip [Fin (- 2), Fin 1] = [Fin (- 2), Fin 1]"
proof -
  have a: "list_all (\<lambda>c. np_lt c (Fin 0)) [Fin (- 2), Fin (- 1)]" by simp
  have b: "\<not> list_all (\<lambda>c. np_lt c (Fin 0)) [Fin (- 2), Fin 0]" by simp
  have c: "\<exists>c\<in>set [Fin (- 2), Fin 1]. np_gt c (Fin 0)" by (simp add: np_gt_def)
  show ?thesis
    using pca_flip_strictly_negative [of "[Fin (- 2), Fin (- 1)]"] a
      pca_flip_strictly_negative [of "[Fin (- 2), Fin 0]"] b
      pca_flip_strictly_negative [of "[Fin (- 2), Fin 1]"] c
    by simp
qed

subsection \<open>Formatting a credible interval\<close>

lemma py_join_format_spec: "py_join (py_str p) [''{:#.'', ''f}''] = format_spec p"
  by (simp add: format_spec_def)

text \<open>Rounding to float64.\<close>

lemma round_half_even_int [simp]: "round_half_even (of_int k) = k"
  by (simp add: round_half_even_def)

lemma round_half_even_le: "r \<le> of_int n \<Longrightarrow> round_half_even r \<le> n"
proof -
  assume a: "r \<le> of_int n"
  have f: "\<lfloor>r\<rfloor> \<le> n" using a by (simp add: floor_le_iff) 
  show ?thesis
  proof (cases "\<lfloor>r\<rfloor> = n")
    case True
    then have "r = of_int n" using a by (metis of_int_floor_le order_antisym)
    then show ?thesis by simp
  next
    case False
    then have "\<lfloor>r\<rfloor> + 1 \<le> n" using f by simp
    then show ?thesis by (auto simp add: round_half_even_def Let_def)
  qed
qed

lemma round_half_even_ge: "of_int n \<le> r \<Longrightarrow> n \<le> round_half_even r"
proof -
  assume "of_int n \<le> r"
  then have "n \<le> \<lfloor>r\<rfloor>" by (simp add: le_floor_iff)
  then show ?thesis by (auto simp add: round_half_even_def Let_def)
qed

lemma log2_bounds:
  assumes "0 < x"
  shows "2 powr of_int \<lfloor>log 2 x\<rfloor> \<le> x" and "x < 2 powr of_int (\<lfloor>log 2 x\<rfloor> + 1)"
  using assms floor_log_eq_powr_iff [of x 2 "\<lfloor>log 2 x\<rfloor>"] by simp_all

lemma powr_int_add: "2 powr of_int (a + b) = 2 powr of_int a * (2 powr of_int b :: real)"
  by (simp add: powr_add)

lemma powr_int_mono: "a \<le> b \<Longrightarrow> 2 powr of_int a \<le> (2 powr of_int b :: real)"
  by simp

lemma powr_int_nat: "0 \<le> n \<Longrightarrow> (2 powr of_int n :: real) = of_int (2 ^ nat n)"
  by (simp add: powr_real_of_int)

lemma scaled_round_bound:
  assumes "\<bar>x\<bar> < 2 powr of_int (E + 1)"
  shows "\<bar>of_int (round_half_even (x / 2 powr of_int (E - 52))) * 2 powr of_int (E - 52)\<bar>
         \<le> (2 powr of_int (E + 1) :: real)"
proof -
  let ?p = "2 powr of_int (E - 52) :: real"
  have p: "0 < ?p" by simp
  have "2 powr of_int (E + 1) = 2 powr (of_int (E - 52) + 53 :: real)"
    by (simp add: algebra_simps)
  also have "\<dots> = ?p * 2 powr 53" by (simp only: powr_add)
  also have "(2 powr 53 :: real) = of_int (2 ^ 53)" by simp
  finally have split: "2 powr of_int (E + 1) = ?p * of_int (2 ^ 53)" .
  have ax: "\<bar>x\<bar> / ?p < of_int (2 ^ 53)"
    using assms p unfolding split by (simp add: field_simps)
  have "x / ?p \<le> \<bar>x\<bar> / ?p" using p by (intro divide_right_mono) simp_all
  then have up: "x / ?p \<le> of_int (2 ^ 53)" using ax by linarith
  have "(- \<bar>x\<bar>) / ?p \<le> x / ?p" using p by (intro divide_right_mono) simp_all
  then have lo: "of_int (- (2 ^ 53)) \<le> x / ?p" using ax by simp
  have "round_half_even (x / ?p) \<le> 2 ^ 53" by (rule round_half_even_le [OF up])
  moreover have "- (2 ^ 53) \<le> round_half_even (x / ?p)" by (rule round_half_even_ge [OF lo])
  ultimately have "\<bar>round_half_even (x / ?p)\<bar> \<le> 2 ^ 53" by simp
  then have "\<bar>of_int (round_half_even (x / ?p)) :: real\<bar> \<le> of_int (2 ^ 53)"
    by (metis of_int_abs of_int_le_iff)
  then have "\<bar>of_int (round_half_even (x / ?p)) * ?p\<bar> \<le> of_int (2 ^ 53) * ?p"
    using p by (simp add: abs_mult)
  then show ?thesis unfolding split by (simp add: mult.commute)
qed

lemma float64_binade:
  assumes "2 powr of_int E \<le> \<bar>x\<bar>" and "\<bar>x\<bar> < 2 powr of_int (E + 1)"
    and "- 1022 \<le> E" and "E < 1023"
  shows "float64 x = Fin (of_int (round_half_even (x / 2 powr of_int (E - 52))) * 2 powr of_int (E - 52))"
proof -
  have pos: "0 < \<bar>x\<bar>" using assms(1) by (rule less_le_trans [rotated]) simp
  then have x: "x \<noteq> 0" by simp
  have fl: "\<lfloor>log 2 \<bar>x\<bar>\<rfloor> = E"
    using floor_log_eq_powr_iff [of "\<bar>x\<bar>" 2 E] pos assms(1,2) by simp
  have e: "max (E - 52) (- 1074) = E - 52" using assms(3) by simp
  let ?r = "of_int (round_half_even (x / 2 powr of_int (E - 52))) * 2 powr of_int (E - 52) :: real"
  have "\<bar>?r\<bar> \<le> 2 powr of_int (E + 1)" by (rule scaled_round_bound [OF assms(2)])
  also have "\<dots> \<le> 2 powr of_int 1023" using assms(4) by (intro powr_int_mono) simp
  also have "\<dots> < 2 powr 1024" by simp
  finally have small: "\<not> 2 powr 1024 \<le> \<bar>?r\<bar>" by simp
  show ?thesis
    using x small by (simp add: float64_def fl e Let_def)
qed

lemma float64_grid:
  assumes "float64 x = Fin u" and "x \<noteq> 0"
  shows "u = of_int (round_half_even (x / 2 powr of_int (max (\<lfloor>log 2 \<bar>x\<bar>\<rfloor> - 52) (- 1074))))
             * 2 powr of_int (max (\<lfloor>log 2 \<bar>x\<bar>\<rfloor> - 52) (- 1074))"
  using assms by (simp add: float64_def Let_def split: if_splits)

lemma float64_below_literal:
  assumes r: "float64 x = Fin u"
    and binade: "2 powr of_int Ec < c"
    and below: "of_int (K - 1) * 2 powr of_int (Ec - 52) < c"
    and above: "c < of_int K * 2 powr of_int (Ec - 52)"
  shows "u < of_int K * 2 powr of_int (Ec - 52) \<longleftrightarrow> u < c"
proof
  assume "u < c"
  then show "u < of_int K * 2 powr of_int (Ec - 52)" using above by simp
next
  assume lt: "u < of_int K * 2 powr of_int (Ec - 52)"
  have cpos: "0 < c" using binade by (rule less_trans [rotated]) simp
  show "u < c"
  proof (cases "x = 0")
    case True
    then have "u = 0" using r by (simp add: float64_def)
    then show ?thesis using cpos by simp
  next
    case False
    let ?e = "max (\<lfloor>log 2 \<bar>x\<bar>\<rfloor> - 52) (- 1074)"
    let ?k = "round_half_even (x / 2 powr of_int ?e)"
    let ?P = "2 powr of_int (Ec - 52) :: real"
    have u: "u = of_int ?k * 2 powr of_int ?e" by (rule float64_grid [OF r False])
    have P: "0 < ?P" by simp
    show ?thesis
    proof (cases "Ec - 52 \<le> ?e")
      case True
      define n where "n = nat (?e - (Ec - 52))"
      have "of_int ?e = of_int (Ec - 52) + (of_int (int n) :: real)"
        using True by (simp add: n_def)
      then have "(2 powr of_int ?e :: real) = ?P * 2 powr of_int (int n)"
        by (simp only: powr_add)
      also have "(2 powr of_int (int n) :: real) = of_int (2 ^ n)"
        by (simp add: powr_realpow)
      finally have "u = of_int (?k * 2 ^ n) * ?P" using u by simp
      then have uj: "u = of_int (?k * 2 ^ n) * ?P" .
      have "of_int (?k * 2 ^ n) < (of_int K :: real)"
        using lt P unfolding uj by simp
      then have "?k * 2 ^ n < K" by (simp only: of_int_less_iff)
      then have "?k * 2 ^ n \<le> K - 1" by simp
      then have "(of_int (?k * 2 ^ n) :: real) \<le> of_int (K - 1)" by (simp only: of_int_le_iff)
      then have "u \<le> of_int (K - 1) * ?P" using P unfolding uj by simp
      then show ?thesis using below by simp
    next
      case False
      then have e: "?e < Ec - 52" by linarith
      then have fl: "\<lfloor>log 2 \<bar>x\<bar>\<rfloor> + 1 \<le> Ec" by linarith
      have xpos: "0 < \<bar>x\<bar>" using \<open>x \<noteq> 0\<close> by simp
      have "\<bar>x\<bar> < 2 powr of_int (\<lfloor>log 2 \<bar>x\<bar>\<rfloor> + 1)" by (rule log2_bounds(2) [OF xpos])
      also have "\<dots> \<le> 2 powr of_int Ec" using fl by (intro powr_int_mono)
      finally have xb: "\<bar>x\<bar> < 2 powr of_int Ec" .
      define n where "n = nat (Ec - ?e)"
      let ?p = "2 powr of_int ?e :: real"
      have p: "0 < ?p" by simp
      have "of_int Ec = of_int ?e + (of_int (int n) :: real)" using e by (simp add: n_def)
      then have "(2 powr of_int Ec :: real) = ?p * 2 powr of_int (int n)"
        by (simp only: powr_add)
      also have "(2 powr of_int (int n) :: real) = of_int (2 ^ n)"
        by (simp add: powr_realpow)
      finally have Ec: "(2 powr of_int Ec :: real) = ?p * of_int (2 ^ n)" .
      have "x / ?p \<le> \<bar>x\<bar> / ?p" using p by (intro divide_right_mono) simp_all
      also have "\<dots> \<le> of_int (2 ^ n)" using xb p unfolding Ec by (simp add: field_simps)
      finally have "?k \<le> 2 ^ n" by (rule round_half_even_le)
      then have "(of_int ?k :: real) \<le> of_int (2 ^ n)" by (simp only: of_int_le_iff)
      then have "u \<le> of_int (2 ^ n) * ?p" using p unfolding u by simp
      also have "\<dots> = 2 powr of_int Ec" unfolding Ec by simp
      finally show ?thesis using binade by simp
    qed
  qed
qed

lemma float64_literal_2_10: "float64 (2 / 10) = Fin (of_int 7205759403792794 * 2 powr of_int (- 3 - 52))"
proof -
  have "float64 (2 / 10) = Fin (of_int (round_half_even ((2 / 10) / 2 powr of_int (- 3 - 52))) * 2 powr of_int (- 3 - 52))"
    by (rule float64_binade) (simp_all add: powr_neg_numeral)
  moreover have "round_half_even ((2 / 10) / 2 powr of_int (- 3 - 52)) = 7205759403792794"
    by (simp add: powr_neg_numeral round_half_even_def)
  ultimately show ?thesis by (simp only: )
qed

lemma float64_literal_2_100: "float64 (2 / 100) = Fin (of_int 5764607523034235 * 2 powr of_int (- 6 - 52))"
proof -
  have "float64 (2 / 100) = Fin (of_int (round_half_even ((2 / 100) / 2 powr of_int (- 6 - 52))) * 2 powr of_int (- 6 - 52))"
    by (rule float64_binade) (simp_all add: powr_neg_numeral)
  moreover have "round_half_even ((2 / 100) / 2 powr of_int (- 6 - 52)) = 5764607523034235"
    by (simp add: powr_neg_numeral round_half_even_def)
  ultimately show ?thesis by (simp only: )
qed

text \<open>
  A float64 is below the literal \<open>.2\<close> exactly when it is below 0.2, and below the literal
  \<open>.02\<close> exactly when it is below 0.02: no float64 lies from the decimal value up to the
  literal.
\<close>

lemma below_literal_2_10:
  assumes "float64 x = Fin u"
  shows "np_lt (Fin u) (float64 (2 / 10)) \<longleftrightarrow> u < 0.2"
proof -
  have "u < of_int 7205759403792794 * 2 powr of_int (- 3 - 52) \<longleftrightarrow> u < 2 / 10"
    by (rule float64_below_literal [OF assms]) (simp_all add: powr_neg_numeral)
  then show ?thesis unfolding float64_literal_2_10 np_lt.simps by simp
qed

lemma below_literal_2_100:
  assumes "float64 x = Fin u"
  shows "np_lt (Fin u) (float64 (2 / 100)) \<longleftrightarrow> u < 0.02"
proof -
  have "u < of_int 5764607523034235 * 2 powr of_int (- 6 - 52) \<longleftrightarrow> u < 2 / 100"
    by (rule float64_below_literal [OF assms]) (simp_all add: powr_neg_numeral)
  then show ?thesis unfolding float64_literal_2_100 np_lt.simps by simp
qed

lemma f64_finite: "f64 v = Fin u \<Longrightarrow> \<exists>x. float64 x = Fin u"
  by (cases v) auto

lemma py_join_format_ci:
  "py_join [] [''$'', a, ''_{-'', b, ''}'', ''^{+'', c, ''}$'']
     = ''$'' @ a @ ''_{-'' @ b @ ''}'' @ ''^{+'' @ c @ ''}$''"
  by simp

text \<open>
  C4. Let the interval function return the bounds \<open>cil\<close> and \<open>cih\<close>, let the median of
  the samples be the float64 \<open>med\<close>, and let the two uncertainties the code computes, the
  float64 differences \<open>ul = median - cil\<close> and \<open>uh = cih - median\<close>, be finite. Then
  \<open>format_ci\<close> chooses the precision 3 if \<open>|med| < 0.2\<close> and \<open>ul < 0.02\<close>, else 2 if
  \<open>|med| < 1\<close>, else 1, and formats the median, \<open>ul\<close> and \<open>uh\<close> with the one format
  string of that precision.
\<close>

theorem format_ci_precision:
  assumes "interval samples ci = Inr (cil, cih)"
    and "np_median samples = Fin med" and "float64 \<bar>med\<bar> = Fin \<bar>med\<bar>"
    and "f64 (np_sub (Fin med) cil) = Fin ul" and "f64 (np_sub cih (Fin med)) = Fin uh"
  shows "format_ci interval py_format samples ci =
     Inr (''$'' @ py_format (format_spec (precision_rule med ul)) (Fin med)
          @ ''_{-'' @ py_format (format_spec (precision_rule med ul)) (Fin ul) @ ''}''
          @ ''^{+'' @ py_format (format_spec (precision_rule med ul)) (Fin uh) @ ''}$'')"
proof -
  obtain x where x: "float64 x = Fin ul" using f64_finite [OF assms(4)] by blast
  have m: "np_lt (np_abs (Fin med)) (float64 (2 / 10)) \<longleftrightarrow> \<bar>med\<bar> < 0.2"
    using below_literal_2_10 [OF assms(3)] by simp
  have u: "np_lt (Fin ul) (float64 (2 / 100)) \<longleftrightarrow> ul < 0.02"
    by (rule below_literal_2_100 [OF x])
  have p: "(if np_lt (np_abs (Fin med)) (float64 (2 / 10)) \<and> np_lt (Fin ul) (float64 (2 / 100))
            then 3 else if np_lt (np_abs (Fin med)) (Fin 1) then 2 else (1::nat))
           = precision_rule med ul"
    unfolding m u by (simp add: precision_rule_def)
  show ?thesis
    unfolding format_ci_def assms(1) and_then_def
    by (simp only: sum.case prod.case Let_def assms(2,4,5) p py_join_format_spec py_join_format_ci)
qed


lemma float64_exact:
  assumes "2 powr of_int E \<le> \<bar>x\<bar>" and "\<bar>x\<bar> < 2 powr of_int (E + 1)"
    and "- 1022 \<le> E" and "E < 1023" and "x / 2 powr of_int (E - 52) = of_int k"
  shows "float64 x = Fin x"
proof -
  have "x = of_int k * 2 powr of_int (E - 52)"
    using assms(5) by (simp add: field_simps)
  then show ?thesis
    unfolding float64_binade [OF assms(1-4)] assms(5) round_half_even_int by simp
qed

theorem format_ci_precision_witness:
  "format_ci credible_interval (\<lambda>fmt v. fmt)
       [Fin (118 / 1024), Fin (128 / 1024), Fin (138 / 1024)] (9 / 10)
     = Inr ''${:#.3f}_{-{:#.3f}}^{+{:#.3f}}$''
   \<and> format_ci credible_interval (\<lambda>fmt v. fmt)
       [Fin (88 / 1024), Fin (128 / 1024), Fin (168 / 1024)] (9 / 10)
     = Inr ''${:#.2f}_{-{:#.2f}}^{+{:#.2f}}$''
   \<and> format_ci credible_interval (\<lambda>fmt v. fmt) [Fin 7] (9 / 10)
     = Inr ''${:#.1f}_{-{:#.1f}}^{+{:#.1f}}$''
   \<and> format_ci (\<lambda>s c. Inr (Fin (- (1298074214633707 / 2 ^ 109)), Fin (2882303761517117 / 2 ^ 57)))
       (\<lambda>fmt v. fmt) [Fin (2882303761517117 / 2 ^ 57)] (9 / 10)
     = Inr ''${:#.2f}_{-{:#.2f}}^{+{:#.2f}}$''
   \<and> (2882303761517117 / 2 ^ 57 - (- (1298074214633707 / 2 ^ 109)) :: real) < 2 / 100"
proof -
  let ?f = "\<lambda>(fmt::string) (v::npfloat). fmt"
  have f: "format_spec 3 = ''{:#.3f}''" "format_spec 2 = ''{:#.2f}''"
      "format_spec (Suc 0) = ''{:#.1f}''"
    by (simp_all add: format_spec_def)
  have eighth: "float64 \<bar>128 / 1024\<bar> = Fin \<bar>128 / 1024\<bar>"
    by (rule float64_exact [where E = "- 3" and k = "2 ^ 52"]) (simp_all add: powr_neg_numeral)
  \<comment> \<open>precision 3\<close>
  let ?s1 = "[Fin (118 / 1024), Fin (128 / 1024), Fin (138 / 1024)]"
  have i1: "credible_interval ?s1 (9 / 10) = Inr (Fin (119 / 1024), Fin (137 / 1024))"
    by (simp add: credible_interval_def quantile_def np_sort_def sort_le_def np_sub_def)
  have m1: "np_median ?s1 = Fin (128 / 1024)"
    by (simp add: np_median_def np_sort_def sort_le_def)
  have r1: "float64 (9 / 1024) = Fin (9 / 1024)"
    by (rule float64_exact [where E = "- 7" and k = "9 * 2 ^ 49"]) (simp_all add: powr_neg_numeral)
  have u1: "f64 (np_sub (Fin (128 / 1024)) (Fin (119 / 1024))) = Fin (9 / 1024)"
      "f64 (np_sub (Fin (137 / 1024)) (Fin (128 / 1024))) = Fin (9 / 1024)"
    using r1 by (simp_all add: np_sub_def)
  have p1: "precision_rule (128 / 1024) (9 / 1024) = 3" by (simp add: precision_rule_def)
  have w1: "format_ci credible_interval ?f ?s1 (9 / 10) = Inr ''${:#.3f}_{-{:#.3f}}^{+{:#.3f}}$''"
    unfolding format_ci_precision [of credible_interval ?s1 "9 / 10" "Fin (119 / 1024)"
        "Fin (137 / 1024)" "128 / 1024" "9 / 1024" "9 / 1024" ?f, OF i1 m1 eighth u1] p1 f by simp
  \<comment> \<open>precision 2: the lower-side uncertainty is not below 0.02\<close>
  let ?s2 = "[Fin (88 / 1024), Fin (128 / 1024), Fin (168 / 1024)]"
  have i2: "credible_interval ?s2 (9 / 10) = Inr (Fin (92 / 1024), Fin (164 / 1024))"
    by (simp add: credible_interval_def quantile_def np_sort_def sort_le_def np_sub_def)
  have m2: "np_median ?s2 = Fin (128 / 1024)"
    by (simp add: np_median_def np_sort_def sort_le_def)
  have r2: "float64 (36 / 1024) = Fin (36 / 1024)"
    by (rule float64_exact [where E = "- 5" and k = "9 * 2 ^ 49"]) (simp_all add: powr_neg_numeral)
  have u2: "f64 (np_sub (Fin (128 / 1024)) (Fin (92 / 1024))) = Fin (36 / 1024)"
      "f64 (np_sub (Fin (164 / 1024)) (Fin (128 / 1024))) = Fin (36 / 1024)"
    using r2 by (simp_all add: np_sub_def)
  have p2: "precision_rule (128 / 1024) (36 / 1024) = 2" by (simp add: precision_rule_def)
  have w2: "format_ci credible_interval ?f ?s2 (9 / 10) = Inr ''${:#.2f}_{-{:#.2f}}^{+{:#.2f}}$''"
    unfolding format_ci_precision [of credible_interval ?s2 "9 / 10" "Fin (92 / 1024)"
        "Fin (164 / 1024)" "128 / 1024" "36 / 1024" "36 / 1024" ?f, OF i2 m2 eighth u2] p2 f by simp
  \<comment> \<open>precision 1\<close>
  have i3: "credible_interval [Fin 7] (9 / 10) = Inr (Fin 7, Fin 7)"
    by (simp add: credible_interval_def quantile_def np_sort_def np_sub_def)
  have m3: "np_median [Fin 7] = Fin 7" by (simp add: np_median_def np_sort_def)
  have seven: "float64 \<bar>7\<bar> = Fin \<bar>7\<bar>"
    by (rule float64_exact [where E = 2 and k = "7 * 2 ^ 50"]) (simp_all add: powr_neg_numeral)
  have u3: "f64 (np_sub (Fin 7) (Fin 7)) = Fin 0"
    by (simp_all add: np_sub_def float64_def)
  have p3: "precision_rule 7 0 = 1" by (simp add: precision_rule_def)
  have w3: "format_ci credible_interval ?f [Fin 7] (9 / 10) = Inr ''${:#.1f}_{-{:#.1f}}^{+{:#.1f}}$''"
    unfolding format_ci_precision [of credible_interval "[Fin 7]" "9 / 10" "Fin 7" "Fin 7" 7 0 0 ?f,
        OF i3 m3 seven u3 u3] p3 One_nat_def f by simp
  \<comment> \<open>the rounded difference reaches the literal although the exact one is below 0.02\<close>
  let ?m = "2882303761517117 / 2 ^ 57 :: real" and ?lo = "- (1298074214633707 / 2 ^ 109) :: real"
  let ?iv = "\<lambda>(s::npfloat list) (c::real). Inr (Fin ?lo, Fin ?m) :: py_error + (npfloat \<times> npfloat)"
  have i4: "?iv [Fin ?m] (9 / 10) = Inr (Fin ?lo, Fin ?m)" by simp
  have m4: "np_median [Fin ?m] = Fin ?m" by (simp add: np_median_def np_sort_def)
  have a4: "float64 \<bar>?m\<bar> = Fin \<bar>?m\<bar>"
    by (rule float64_exact [where E = "- 6" and k = "2882303761517117 * 2"])
       (simp_all add: powr_neg_numeral)
  have "float64 (?m - ?lo) = Fin (of_int (round_half_even ((?m - ?lo) / 2 powr of_int (- 6 - 52)))
          * 2 powr of_int (- 6 - 52))"
    by (rule float64_binade) (simp_all add: powr_neg_numeral)
  moreover have "round_half_even ((?m - ?lo) / 2 powr of_int (- 6 - 52)) = 5764607523034235"
    by (simp add: powr_neg_numeral round_half_even_def)
  ultimately have r4: "float64 (?m - ?lo) = Fin (5764607523034235 / 2 ^ 58)"
    by (simp add: powr_neg_numeral)
  have u4: "f64 (np_sub (Fin ?m) (Fin ?lo)) = Fin (5764607523034235 / 2 ^ 58)"
    using r4 by (simp add: np_sub_def)
  have v4: "f64 (np_sub (Fin ?m) (Fin ?m)) = Fin 0" by (simp add: np_sub_def float64_def)
  have p4: "precision_rule ?m (5764607523034235 / 2 ^ 58) = 2" by (simp add: precision_rule_def)
  have w4: "format_ci ?iv ?f [Fin ?m] (9 / 10) = Inr ''${:#.2f}_{-{:#.2f}}^{+{:#.2f}}$''"
    unfolding format_ci_precision [of ?iv "[Fin ?m]" "9 / 10" "Fin ?lo" "Fin ?m" ?m
        "5764607523034235 / 2 ^ 58" 0 ?f, OF i4 m4 a4 u4 v4] p4 f by simp
  have e4: "(?m - ?lo) < 2 / 100" by simp
  show ?thesis using w1 w2 w3 w4 e4 by (simp only: simp_thms)
qed

subsection \<open>Bulk-viscosity regimes\<close>











subsection \<open>Observables with experimental data\<close>

lemma collect_all_ok: "(\<And>a. a \<in> set as \<Longrightarrow> f a = Inr (g a)) \<Longrightarrow> collect f as = Inr (map g as)"
  by (induction as) (simp_all add: and_then_def)

lemma plotted_subplots_have_colors:
  "(obs, sub, opts) \<in> set plotted_subplots \<Longrightarrow> \<exists>color. obs_color_hsluv obs sub = Inr color"
  by (auto simp add: plotted_subplots_def observables_plots_def id_parts_plots_def
      obs_color_hsluv_def getitem_def species_colors_def cumulant_colors_def)

lemma label_text_ok:
  assumes "x \<noteq> []" and "ncols Y = length x"
  shows "\<exists>lab. label_text x Y color l = Inr lab \<and> list_all (\<lambda>d. \<not> is_errorbar d) lab"
  using assms by (cases l) (simp_all add: label_text_def)

text \<open>
  C9. For a key \<open>(obs, subobs)\<close> that \<open>_observables\<close> draws, present in the model
  data (with \<open>x\<close> not empty and every curve as long as \<open>x\<close>) and absent from the
  experimental data, the \<open>KeyError\<close> of the experimental lookup is caught: the pass
  returns without error what it has drawn, one model curve for each row of \<open>Y\<close> and
  the label, and no error bar.
\<close>

theorem observables_subplot_missing_expt:
  assumes "(obs, sub, opts) \<in> set plotted_subplots"
    and "lookup3 model_data system obs sub = Inr m"
    and "(if posterior then lookup3 samples system obs sub else Inr (model_Y m)) = Inr Y0"
    and "has_shape2 n (length (model_x m)) Y0" and "model_x m \<noteq> []"
    and "lookup3 expt_data system obs sub = Inl KeyError"
  shows "\<exists>color lab.
      obs_color_hsluv obs sub = Inr color
      \<and> observables_subplot posterior model_data samples expt_data system (obs, sub, opts)
          = Inr (map (\<lambda>y. Plot (model_x m) y color)
                   (rows (case opt_scale opts of None \<Rightarrow> Y0
                          | Some c \<Rightarrow> map2d (\<lambda>v. np_mul v c) Y0)) @ lab)
      \<and> list_all (\<lambda>d. \<not> is_errorbar d) lab"
proof -
  let ?x = "model_x m"
  let ?Y = "case opt_scale opts of None \<Rightarrow> Y0 | Some c \<Rightarrow> map2d (\<lambda>v. np_mul v c) Y0"
  obtain color where color: "obs_color_hsluv obs sub = Inr color"
    using plotted_subplots_have_colors [OF assms(1)] by blast
  have Y: "has_shape2 n (length ?x) ?Y"
    using assms(4) by (cases "opt_scale opts") (simp_all add: has_shape2_map2d)
  have "ax_plot ?x color y = Inr (Plot ?x y color)" if "y \<in> set (rows ?Y)" for y
    using Y that by (simp add: ax_plot_def has_shape2_def wf2_def list_all_iff)
  then have curves: "collect (ax_plot ?x color) (rows ?Y) = Inr (map (\<lambda>y. Plot ?x y color) (rows ?Y))"
    by (rule collect_all_ok)
  have nc: "ncols ?Y = length ?x" using Y by (simp add: has_shape2_def)
  obtain lab where lab: "label_text ?x ?Y color (opt_label opts) = Inr lab"
      "list_all (\<lambda>d. \<not> is_errorbar d) lab"
    using label_text_ok [OF assms(5) nc] by blast
  have "observables_subplot posterior model_data samples expt_data system (obs, sub, opts)
      = Inr (map (\<lambda>y. Plot ?x y color) (rows ?Y) @ lab)"
    by (simp add: observables_subplot_def color assms(2,3,6) curves lab(1) and_then_def Let_def)
  with color lab(2) show ?thesis by blast
qed


theorem observables_subplot_missing_expt_witness:
  "\<exists>lab. observables_subplot False
      [''PbPb2760'' \<mapsto> [''dET_deta'' \<mapsto> [NoSub \<mapsto>
         \<lparr>model_x = [Fin 5], model_Y = Array2 1 [[Fin 1], [Fin 2]]\<rparr>]]]
      Map.empty Map.empty ''PbPb2760''
      (''dET_deta'', NoSub, \<lparr>opt_label = Some ''$E_T$'', opt_scale = Some (Fin 5)\<rparr>)
     = Inr ([Plot [Fin 5] [Fin 5] (10, 65, 55), Plot [Fin 5] [Fin 10] (10, 65, 55)] @ lab)
     \<and> list_all (\<lambda>d. \<not> is_errorbar d) lab"
proof -
  let ?m = "\<lparr>model_x = [Fin 5], model_Y = Array2 1 [[Fin 1], [Fin 2]]\<rparr>"
  let ?model = "[''PbPb2760'' \<mapsto> [''dET_deta'' \<mapsto> [NoSub \<mapsto> ?m]]]"
  let ?opts = "\<lparr>opt_label = Some ''$E_T$'', opt_scale = Some (Fin 5)\<rparr>"
  let ?expt = "Map.empty :: expt_entry dataset"
  let ?samples = "Map.empty :: array2 dataset"
  have a: "(''dET_deta'', NoSub, ?opts) \<in> set plotted_subplots"
    by (simp add: plotted_subplots_def observables_plots_def)
  have b: "lookup3 ?model ''PbPb2760'' ''dET_deta'' NoSub = Inr ?m"
    by (simp add: lookup3_def lookup_def and_then_def)
  have c: "(if False then lookup3 ?samples ''PbPb2760'' ''dET_deta'' NoSub else Inr (model_Y ?m))
      = Inr (Array2 1 [[Fin 1], [Fin 2]])"
    by simp
  have d: "has_shape2 2 (length (model_x ?m)) (Array2 1 [[Fin 1], [Fin 2]])" "model_x ?m \<noteq> []"
    by (simp_all add: has_shape2_def wf2_def nrows_def)
  have e: "lookup3 ?expt ''PbPb2760'' ''dET_deta'' NoSub = Inl KeyError"
    by (simp add: lookup3_def lookup_def and_then_def)
  have col: "obs_color_hsluv ''dET_deta'' NoSub = Inr (10, 65, 55)"
    by (simp add: obs_color_hsluv_def)
  obtain color lab where r: "obs_color_hsluv ''dET_deta'' NoSub = Inr color"
      "observables_subplot False ?model ?samples ?expt ''PbPb2760'' (''dET_deta'', NoSub, ?opts)
         = Inr (map (\<lambda>y. Plot (model_x ?m) y color)
                 (rows (case opt_scale ?opts of None \<Rightarrow> Array2 1 [[Fin 1], [Fin 2]]
                        | Some c \<Rightarrow> map2d (\<lambda>v. np_mul v c) (Array2 1 [[Fin 1], [Fin 2]]))) @ lab)"
      "list_all (\<lambda>d. \<not> is_errorbar d) lab"
    using observables_subplot_missing_expt [OF a b c d e] by blast
  have "color = (10, 65, 55)" using r(1) col by simp
  then show ?thesis using r(2,3) by (auto simp add: map2d_def)
qed

subsection \<open>Normal quantiles of the residual bands\<close>

lemma quantile_at_sigma_formula:
  "quantile_at_sigma erf (sqrt 2 * erfinv y) - (1 + y) / 2 = (erf (erfinv y) - y) / 2"
  by (simp add: quantile_at_sigma_def field_simps)

text \<open>
  C6. Let \<open>erfinv\<close> vanish at 0 and be odd at \<open>1/2\<close>, as the inverse error function is.
  Then the ticks of the normal-quantile axis are the tick of the 10 per cent quantile
  at \<open>-p\<close> and, for each quantile \<open>q\<close> of 25, 50, 75 and 90 per cent, a tick at
  \<open>sqrt 2 * erfinv (2 q - 1)\<close>: positions given by the inverse error function alone, not
  by the residuals. At each of the four, \<open>quantile_at_sigma\<close> is \<open>q\<close> to within half the
  error with which \<open>erfinv\<close> inverts \<open>erf\<close> on \<open>(-1, 1)\<close>, and exactly \<open>q\<close> when that
  error is zero.
\<close>

theorem quantile_ticks_positions:
  assumes "erfinv 0 = 0" and "erfinv (- (1 / 2)) = - erfinv (1 / 2)"
  shows "quantile_ticks erfinv =
           (- (sqrt 2 * erfinv (2 * (90 / 100) - 1)), 10)
           # map (\<lambda>q. (sqrt 2 * erfinv (2 * (q / 100) - 1), q)) [25, 50, 75, 90]
     \<and> (\<forall>erf \<epsilon>. (\<forall>y. - 1 < y \<and> y < 1 \<longrightarrow> \<bar>erf (erfinv y) - y\<bar> \<le> \<epsilon>) \<longrightarrow>
          (\<forall>q \<in> {25, 50, 75, 90}.
             \<bar>quantile_at_sigma erf (sqrt 2 * erfinv (2 * (q / 100) - 1)) - q / 100\<bar> \<le> \<epsilon> / 2))"
proof (intro conjI allI impI ballI)
  have t25: "- (sqrt 2 * erfinv (1 / 2)) = sqrt 2 * erfinv (- (1 / 2))"
    unfolding assms(2) by simp
  show "quantile_ticks erfinv =
           (- (sqrt 2 * erfinv (2 * (90 / 100) - 1)), 10)
           # map (\<lambda>q. (sqrt 2 * erfinv (2 * (q / 100) - 1), q)) [25, 50, 75, 90]"
    using t25 assms(1) by (simp add: quantile_ticks_def sigma_levels_def)
next
  fix erf :: "real \<Rightarrow> real" and \<epsilon> q :: real
  assume acc: "\<forall>y. - 1 < y \<and> y < 1 \<longrightarrow> \<bar>erf (erfinv y) - y\<bar> \<le> \<epsilon>"
    and q: "q \<in> {25, 50, 75, 90}"
  let ?y = "2 * (q / 100) - 1"
  have "- 1 < ?y \<and> ?y < 1" using q by auto
  then have "\<bar>erf (erfinv ?y) - ?y\<bar> \<le> \<epsilon>" using acc by blast
  then have bound: "\<bar>(erf (erfinv ?y) - ?y) / 2\<bar> \<le> \<epsilon> / 2" by simp
  have "(1 + ?y) / 2 = q / 100" by simp
  then have eq: "quantile_at_sigma erf (sqrt 2 * erfinv ?y) - q / 100 = (erf (erfinv ?y) - ?y) / 2"
    using quantile_at_sigma_formula [of erf erfinv ?y] by (simp only: )
  show "\<bar>quantile_at_sigma erf (sqrt 2 * erfinv ?y) - q / 100\<bar> \<le> \<epsilon> / 2"
    using bound by (simp only: eq)
qed

theorem quantile_ticks_positions_witness:
  "quantile_ticks (\<lambda>y. y / (1 - \<bar>y\<bar>))
     = [(- (sqrt 2 * 4), 10), (- sqrt 2, 25), (0, 50), (sqrt 2, 75), (sqrt 2 * 4, 90)]
   \<and> quantile_at_sigma (\<lambda>x. x / (1 + \<bar>x\<bar>)) (- sqrt 2) = 25 / 100
   \<and> quantile_at_sigma (\<lambda>x. x / (1 + \<bar>x\<bar>)) 0 = 50 / 100
   \<and> quantile_at_sigma (\<lambda>x. x / (1 + \<bar>x\<bar>)) (sqrt 2) = 75 / 100
   \<and> quantile_at_sigma (\<lambda>x. x / (1 + \<bar>x\<bar>)) (sqrt 2 * 4) = 90 / 100"
proof -
  let ?erfinv = "\<lambda>y::real. y / (1 - \<bar>y\<bar>)" and ?erf = "\<lambda>x::real. x / (1 + \<bar>x\<bar>)"
  have z: "?erfinv 0 = 0" and odd: "?erfinv (- (1 / 2)) = - ?erfinv (1 / 2)" by simp_all
  have inv: "\<forall>y. - 1 < y \<and> y < 1 \<longrightarrow> \<bar>?erf (?erfinv y) - y\<bar> \<le> 0"
  proof (intro allI impI)
    fix y :: real assume y: "- 1 < y \<and> y < 1"
    have pos: "0 < 1 - \<bar>y\<bar>" using y by linarith
    have "\<bar>y / (1 - \<bar>y\<bar>)\<bar> = \<bar>y\<bar> / (1 - \<bar>y\<bar>)"
      using pos by (simp only: abs_divide abs_of_pos)
    then have "1 + \<bar>y / (1 - \<bar>y\<bar>)\<bar> = 1 / (1 - \<bar>y\<bar>)"
      using pos by (simp only: ) (simp add: divide_simps)
    then have "(y / (1 - \<bar>y\<bar>)) / (1 + \<bar>y / (1 - \<bar>y\<bar>)\<bar>) = y"
      using pos by (simp only: ) simp
    then show "\<bar>?erf (?erfinv y) - y\<bar> \<le> 0" by simp
  qed
  note t = quantile_ticks_positions [of ?erfinv, OF z odd]
  have ticks: "quantile_ticks ?erfinv
     = [(- (sqrt 2 * 4), 10), (- sqrt 2, 25), (0, 50), (sqrt 2, 75), (sqrt 2 * 4, 90)]"
    using t by simp
  have acc: "\<bar>quantile_at_sigma ?erf (sqrt 2 * ?erfinv (2 * (q / 100) - 1)) - q / 100\<bar> \<le> 0 / 2"
    if "q \<in> {25, 50, 75, 90}" for q
    by (rule conjunct2 [OF t, rule_format, of ?erf 0]) (use inv that in auto)
  have "quantile_at_sigma ?erf (sqrt 2 * ?erfinv (2 * (25 / 100) - 1)) = 25 / 100"
    "quantile_at_sigma ?erf (sqrt 2 * ?erfinv (2 * (50 / 100) - 1)) = 50 / 100"
    "quantile_at_sigma ?erf (sqrt 2 * ?erfinv (2 * (75 / 100) - 1)) = 75 / 100"
    "quantile_at_sigma ?erf (sqrt 2 * ?erfinv (2 * (90 / 100) - 1)) = 90 / 100"
    using acc [of 25] acc [of 50] acc [of 75] acc [of 90] by simp_all
  then show ?thesis using ticks by simp
qed

subsection \<open>Smoothing a histogram\<close>

lemma hermite_left: "hermite x0 x1 y0 y1 d0 d1 x0 = y0"
  by (simp add: hermite_def)

lemma hermite_right: "x0 \<noteq> x1 \<Longrightarrow> hermite x0 x1 y0 y1 d0 d1 x1 = y1"
  by (simp add: hermite_def Let_def)

lemma find_interval_at_knot:
  "sorted_wrt (<) xs \<Longrightarrow> k < length xs \<Longrightarrow> find_interval xs (xs ! k) = min k (length xs - 2)"
proof (induction xs "xs ! k" arbitrary: k rule: find_interval.induct)
  case (1 a b c xs)
  show ?case
  proof (cases k)
    case 0
    then show ?thesis using "1.prems" by simp
  next
    case (Suc j)
    have ge: "\<not> (a # b # c # xs) ! k < b"
    proof (cases j)
      case 0
      then show ?thesis using Suc by simp
    next
      case (Suc i)
      have "i < length (c # xs)" using \<open>k = Suc j\<close> Suc "1.prems"(2) by simp
      then have "(c # xs) ! i \<in> set (c # xs)" by (rule nth_mem)
      moreover have "(a # b # c # xs) ! k = (c # xs) ! i" using \<open>k = Suc j\<close> Suc by simp
      ultimately have "(a # b # c # xs) ! k \<in> set (c # xs)" by simp
      then have "b < (a # b # c # xs) ! k" using "1.prems"(1) by auto
      then show ?thesis by simp
    qed
    have "find_interval (b # c # xs) ((b # c # xs) ! j) = min j (length (b # c # xs) - 2)"
      using "1.hyps" [of j] ge "1.prems" Suc by simp
    then show ?thesis using ge Suc by simp
  qed
qed simp_all

lemma pchip_eval_at_knot:
  assumes "sorted_wrt (<) xs" and "2 \<le> length xs" and "k < length xs"
  shows "pchip_eval xs ys ds (xs ! k) = ys ! k"
proof (cases "k < length xs - 1")
  case True
  then have "find_interval xs (xs ! k) = k"
    using find_interval_at_knot [OF assms(1,3)] by simp
  then show ?thesis by (simp add: pchip_eval_def hermite_left)
next
  case False
  then have k: "k = Suc (length xs - 2)" using assms(2,3) by simp
  have i: "find_interval xs (xs ! k) = length xs - 2"
    using find_interval_at_knot [OF assms(1,3)] k by simp
  have "xs ! (length xs - 2) < xs ! k"
    using assms(1,3) k by (simp add: sorted_wrt_iff_nth_less)
  then have ne: "xs ! (length xs - 2) \<noteq> xs ! Suc (length xs - 2)" using k by simp
  show ?thesis
    unfolding pchip_eval_def i Let_def
    using hermite_right [OF ne] k by simp
qed

text \<open>
  C8. For strictly increasing bin centres, at least two of them, with as many bin heights,
  the interpolant is built without error and takes the bin height \<open>ys ! k\<close> at every bin
  centre \<open>xs ! k\<close>, whatever the slopes.
\<close>

theorem pchip_passes_through_bins:
  assumes "sorted_wrt (<) xs" and "length ys = length xs" and "2 \<le> length xs"
    and "k < length xs"
  shows "\<exists>interp. PchipInterpolator xs ys ds = Inr interp \<and> interp (xs ! k) = ys ! k"
  using assms pchip_eval_at_knot [OF assms(1,3,4)]
  by (simp add: PchipInterpolator_def)



theorem pchip_passes_through_bins_witness:
  "\<exists>interp. PchipInterpolator [0, 1, 3] [2, 5, 4] [1, 0, - 1] = Inr interp
     \<and> interp 0 = 2 \<and> interp 1 = 5 \<and> interp 3 = 4"
proof -
  let ?xs = "[0, 1, 3 :: real]" and ?ys = "[2, 5, 4 :: real]" and ?ds = "[1, 0, - 1 :: real]"
  have a: "sorted_wrt (<) ?xs" "length ?ys = length ?xs" "2 \<le> length ?xs" by simp_all
  obtain f0 where f0: "PchipInterpolator ?xs ?ys ?ds = Inr f0" "f0 (?xs ! 0) = ?ys ! 0"
    using pchip_passes_through_bins [OF a, of 0 ?ds] by auto
  obtain f1 where f1: "PchipInterpolator ?xs ?ys ?ds = Inr f1" "f1 (?xs ! 1) = ?ys ! 1"
    using pchip_passes_through_bins [OF a, of 1 ?ds] by auto
  obtain f2 where f2: "PchipInterpolator ?xs ?ys ?ds = Inr f2" "f2 (?xs ! 2) = ?ys ! 2"
    using pchip_passes_through_bins [OF a, of 2 ?ds] by auto
  have "f1 = f0" "f2 = f0" using f0(1) f1(1) f2(1) by simp_all
  then show ?thesis using f0 f1(2) f2(2) by simp
qed

text \<open>
  The curve the source draws samples the interpolant at \<open>10 * n\<close> evenly spaced points
  from the first bin centre to the last: it starts at the first bin height and ends at
  the last.
\<close>

lemma np_linspace_ends:
  assumes "2 \<le> n"
  shows "length (np_linspace a b n) = n" and "hd (np_linspace a b n) = a"
    and "last (np_linspace a b n) = b"
proof -
  have n: "n \<noteq> 1" "0 < n" "[0..<n] \<noteq> []" using assms by simp_all
  show "length (np_linspace a b n) = n" using n by (simp add: np_linspace_def)
  show "hd (np_linspace a b n) = a"
    using n by (simp add: np_linspace_def hd_map hd_upt)
  have "last (np_linspace a b n) = a + real (n - 1) * ((b - a) / real (n - 1))"
    using n by (simp add: np_linspace_def last_map)
  also have "\<dots> = b" using assms by simp
  finally show "last (np_linspace a b n) = b" .
qed

lemma smooth_curve_ends:
  assumes "sorted_wrt (<) xs" and "length ys = length xs" and "2 \<le> length xs"
  shows "\<exists>grid vals. smooth_curve xs ys ds = Inr (grid, vals)
     \<and> length grid = 10 * length xs \<and> length vals = 10 * length xs
     \<and> hd grid = hd xs \<and> hd vals = hd ys \<and> last grid = last xs \<and> last vals = last ys"
proof -
  let ?n = "10 * length xs"
  let ?grid = "np_linspace (hd xs) (last xs) ?n"
  have n: "2 \<le> ?n" using assms(3) by simp
  have ne: "xs \<noteq> []" "ys \<noteq> []" using assms(2,3) by auto
  have g: "?grid \<noteq> []" using np_linspace_ends(1) [OF n, of "hd xs" "last xs"] n by auto
  have first: "pchip_eval xs ys ds (hd xs) = hd ys"
    using pchip_eval_at_knot [OF assms(1,3), of 0 ys ds] ne assms(3) by (simp add: hd_conv_nth)
  have last: "pchip_eval xs ys ds (last xs) = last ys"
    using pchip_eval_at_knot [OF assms(1,3), of "length xs - 1" ys ds] ne assms(2,3)
    by (simp add: last_conv_nth)
  have "smooth_curve xs ys ds = Inr (?grid, map (pchip_eval xs ys ds) ?grid)"
    using assms ne by (simp add: smooth_curve_def PchipInterpolator_def and_then_def Let_def)
  moreover have "hd (map (pchip_eval xs ys ds) ?grid) = hd ys"
    using g first np_linspace_ends(2) [OF n, of "hd xs" "last xs"] by (simp add: hd_map)
  moreover have "last (map (pchip_eval xs ys ds) ?grid) = last ys"
    using g last np_linspace_ends(3) [OF n, of "hd xs" "last xs"] by (simp add: last_map)
  ultimately show ?thesis
    using np_linspace_ends [OF n, of "hd xs" "last xs"] by simp
qed

end
